theory Spec2Isabelle
  imports Main "HOL-Library.AList"
begin

section \<open>Ordered list transform (translations/maps/utils/physicallyIndexed.js)\<close>

text \<open>
  Physical indexes are non-negative integers (the data model of the grid), so they are
  \<^typ>\<open>nat\<close> here. A value that JavaScript leaves \<^verbatim>\<open>undefined\<close> (reading
  \<^verbatim>\<open>insertedIndexes[0]\<close> of an empty array) is \<^const>\<open>None\<close>.
\<close>

text \<open>
  \<^verbatim>\<open>Array.prototype.slice(start, end)\<close> on non-negative integer arguments, following the
  language definition: an undefined \<^verbatim>\<open>start\<close> is 0, an undefined \<^verbatim>\<open>end\<close> is the length,
  both are capped by the length, and \<^verbatim>\<open>max(final - k, 0)\<close> elements are copied from
  position \<^verbatim>\<open>k\<close>.
\<close>

definition slice :: "'a list \<Rightarrow> nat option \<Rightarrow> nat option \<Rightarrow> 'a list" where
  "slice xs start end_opt =
     (let len = length xs;
          k = (case start of None \<Rightarrow> 0 | Some s \<Rightarrow> min s len);
          final = (case end_opt of None \<Rightarrow> len | Some e \<Rightarrow> min e len)
      in take (final - k) (drop k xs))"

text \<open>
  The fourth argument of \<^verbatim>\<open>getListWithInsertedItems\<close>: a plain value, or a function
  (\<^verbatim>\<open>isFunction\<close> holds), which is invoked with the inserted index and its ordinal number in
  the batch.
\<close>

datatype 'v valuesMapping = PlainValue 'v | ValueFn "nat \<Rightarrow> nat \<Rightarrow> 'v"

text \<open>The callback given to \<^verbatim>\<open>insertedIndexes.map\<close>: the branch on \<^verbatim>\<open>isFunction\<close> is the
  case distinction on the mapping.\<close>

fun insertedValue :: "'v valuesMapping \<Rightarrow> nat \<Rightarrow> nat \<Rightarrow> 'v" where
  "insertedValue (ValueFn f) insertedIndex ordinalNumber = f insertedIndex ordinalNumber"
| "insertedValue (PlainValue v) insertedIndex ordinalNumber = v"

text \<open>\<^verbatim>\<open>array.map((element, index) => ...)\<close>: the callback sees each element with its position.\<close>

definition mapWithIndex :: "('a \<Rightarrow> nat \<Rightarrow> 'b) \<Rightarrow> 'a list \<Rightarrow> 'b list" where
  "mapWithIndex f xs = map (\<lambda>(index, x). f x index) (List.enumerate 0 xs)"

definition firstInsertedIndex :: "nat list \<Rightarrow> nat option" where
  "firstInsertedIndex insertedIndexes =
     (case insertedIndexes of [] \<Rightarrow> None | i # _ \<Rightarrow> Some i)"

definition getListWithInsertedItems ::
  "'v list \<Rightarrow> nat \<Rightarrow> nat list \<Rightarrow> 'v valuesMapping \<Rightarrow> 'v list" where
  "getListWithInsertedItems indexedValues insertionIndex insertedIndexes insertedValuesMapping =
     slice indexedValues (Some 0) (firstInsertedIndex insertedIndexes)
     @ mapWithIndex (insertedValue insertedValuesMapping) insertedIndexes
     @ slice indexedValues (firstInsertedIndex insertedIndexes) None"

text \<open>
  Modelled from the spec: \<^verbatim>\<open>arrayFilter\<close> of \<^verbatim>\<open>helpers/array\<close> is not among the sources. It
  keeps, in order, the elements for which the predicate holds; the predicate receives the
  element and its position.
\<close>

definition arrayFilter :: "'a list \<Rightarrow> ('a \<Rightarrow> nat \<Rightarrow> bool) \<Rightarrow> 'a list" where
  "arrayFilter array predicate =
     map snd (filter (\<lambda>(index, x). predicate x index) (List.enumerate 0 array))"

definition getListWithRemovedItems :: "'v list \<Rightarrow> nat list \<Rightarrow> 'v list" where
  "getListWithRemovedItems indexedValues removedIndexes =
     arrayFilter indexedValues (\<lambda>_ index. List.member removedIndexes index = False)"

section \<open>Index map\<close>

text \<open>
  The initial-value source of an index map: a value, or a function of the index.
\<close>

datatype 'v initSource = InitValue 'v | InitFn "nat \<Rightarrow> 'v"

record 'v IndexMap =
  indexedValues :: "'v list"
  initValueOrFn :: "'v initSource"

text \<open>
  Modelled from the spec: the class \<^verbatim>\<open>IndexMap\<close> (\<^verbatim>\<open>insert\<close>, \<^verbatim>\<open>remove\<close>, \<^verbatim>\<open>init\<close>) is not
  among the sources. \<^verbatim>\<open>insert\<close> delegates to the ordered list transform with the map's
  initial-value source and replaces the stored sequence; \<^verbatim>\<open>remove\<close> is symmetric;
  \<^verbatim>\<open>init(length)\<close> resets the whole sequence to \<^verbatim>\<open>length\<close> entries taken from the
  initial-value source. A one-argument source function ignores the ordinal number that the
  list transform passes as second argument.
\<close>

definition asValuesMapping :: "'v initSource \<Rightarrow> 'v valuesMapping" where
  "asValuesMapping src = (case src of InitValue v \<Rightarrow> PlainValue v | InitFn f \<Rightarrow> ValueFn (\<lambda>index _. f index))"

definition IndexMap_insert :: "nat \<Rightarrow> nat list \<Rightarrow> 'v IndexMap \<Rightarrow> 'v IndexMap" where
  "IndexMap_insert insertionIndex insertedIndexes m =
     m\<lparr>indexedValues := getListWithInsertedItems (indexedValues m) insertionIndex insertedIndexes
                          (asValuesMapping (initValueOrFn m))\<rparr>"

definition IndexMap_remove :: "nat list \<Rightarrow> 'v IndexMap \<Rightarrow> 'v IndexMap" where
  "IndexMap_remove removedIndexes m =
     m\<lparr>indexedValues := getListWithRemovedItems (indexedValues m) removedIndexes\<rparr>"

definition IndexMap_init :: "nat \<Rightarrow> 'v IndexMap \<Rightarrow> 'v IndexMap" where
  "IndexMap_init len m =
     m\<lparr>indexedValues := (case initValueOrFn m of
                            InitValue v \<Rightarrow> replicate len v
                          | InitFn f \<Rightarrow> map f [0..<len])\<rparr>"

section \<open>Map collection (translations/mapCollection.js)\<close>

text \<open>
  Index maps and collections are objects: a collection stores references to the maps that
  were registered, and \<^verbatim>\<open>register\<close> takes any map object, also one that is registered
  already. The program state is therefore explicit: a heap from references to index maps,
  the \<^verbatim>\<open>mappings\<close> of every collection object, and the module-level counter
  \<^verbatim>\<open>registeredMaps\<close>. A JavaScript \<^verbatim>\<open>Map\<close> keeps its entries in insertion order, so
  \<^verbatim>\<open>mappings\<close> is an association list with the \<^verbatim>\<open>Map\<close> operations below.

  The local hooks (\<^verbatim>\<open>addLocalHook\<close>, \<^verbatim>\<open>clearLocalHooks\<close>, \<^verbatim>\<open>runLocalHooks\<close>) belong to the
  hook dispatch mixin, an external collaborator, and are left out. In their place the
  state records, in \<open>memberCalls\<close>, every method call that a collection makes on a member
  map, in the order of the calls.
\<close>

type_synonym ref = nat

datatype memberCall = InsertCall nat "nat list" | RemoveCall "nat list" | InitCall nat

record MapCollection =
  mappings :: "(string \<times> ref) list"

record 'v runtime =
  registeredMaps :: int
  heap :: "ref \<Rightarrow> 'v IndexMap"
  collections :: "nat \<Rightarrow> MapCollection"
  memberCalls :: "(ref \<times> memberCall) list"

definition Map_has :: "('k \<times> 'a) list \<Rightarrow> 'k \<Rightarrow> bool" where
  "Map_has entries key = (map_of entries key \<noteq> None)"

definition Map_get :: "('k \<times> 'a) list \<Rightarrow> 'k \<Rightarrow> 'a option" where
  "Map_get entries key = map_of entries key"

definition Map_set :: "('k \<times> 'a) list \<Rightarrow> 'k \<Rightarrow> 'a \<Rightarrow> ('k \<times> 'a) list" where
  "Map_set entries key v = AList.update key v entries"

definition Map_delete :: "('k \<times> 'a) list \<Rightarrow> 'k \<Rightarrow> ('k \<times> 'a) list" where
  "Map_delete entries key = AList.delete key entries"

text \<open>\<^verbatim>\<open>Map.prototype.forEach\<close>: the callback runs on every value, in insertion order. The
  methods of a collection below take the collection object (\<^verbatim>\<open>this\<close>) as their first
  argument and return the state after the call.\<close>

definition Map_forEach :: "('k \<times> 'a) list \<Rightarrow> ('a \<Rightarrow> 's \<Rightarrow> 's) \<Rightarrow> 's \<Rightarrow> 's" where
  "Map_forEach entries callback = fold (\<lambda>(key, v). callback v) entries"

definition setMappings :: "nat \<Rightarrow> (string \<times> ref) list \<Rightarrow> 'v runtime \<Rightarrow> 'v runtime" where
  "setMappings this ms w =
     w\<lparr>collections := (collections w)(this := (collections w this)\<lparr>mappings := ms\<rparr>)\<rparr>"

definition register :: "nat \<Rightarrow> string \<Rightarrow> ref \<Rightarrow> 'v runtime \<Rightarrow> 'v runtime" where
  "register this uniqueName indexMap w =
     (if Map_has (mappings (collections w this)) uniqueName = False
      then (setMappings this (Map_set (mappings (collections w this)) uniqueName indexMap) w)
             \<lparr>registeredMaps := registeredMaps w + 1\<rparr>
      else w)"

definition unregister :: "nat \<Rightarrow> string \<Rightarrow> 'v runtime \<Rightarrow> 'v runtime" where
  "unregister this name w =
     (case Map_get (mappings (collections w this)) name of
        Some indexMap \<Rightarrow>
          (setMappings this (Map_delete (mappings (collections w this)) name) w)
             \<lparr>registeredMaps := registeredMaps w - 1\<rparr>
      | None \<Rightarrow> w)"

text \<open>A method call on the member map behind a reference: the object is updated in place.\<close>

fun applyCall :: "memberCall \<Rightarrow> 'v IndexMap \<Rightarrow> 'v IndexMap" where
  "applyCall (InsertCall insertionIndex insertedIndexes) m = IndexMap_insert insertionIndex insertedIndexes m"
| "applyCall (RemoveCall removedIndexes) m = IndexMap_remove removedIndexes m"
| "applyCall (InitCall len) m = IndexMap_init len m"

definition callMember :: "memberCall \<Rightarrow> ref \<Rightarrow> 'v runtime \<Rightarrow> 'v runtime" where
  "callMember call indexMap w =
     w\<lparr>heap := (heap w)(indexMap := applyCall call (heap w indexMap)),
       memberCalls := memberCalls w @ [(indexMap, call)]\<rparr>"

definition removeFromEvery :: "nat \<Rightarrow> nat list \<Rightarrow> 'v runtime \<Rightarrow> 'v runtime" where
  "removeFromEvery this removedIndexes w =
     Map_forEach (mappings (collections w this)) (callMember (RemoveCall removedIndexes)) w"

definition insertToEvery :: "nat \<Rightarrow> nat \<Rightarrow> nat list \<Rightarrow> 'v runtime \<Rightarrow> 'v runtime" where
  "insertToEvery this insertionIndex insertedIndexes w =
     Map_forEach (mappings (collections w this))
       (callMember (InsertCall insertionIndex insertedIndexes)) w"

definition initEvery :: "nat \<Rightarrow> nat \<Rightarrow> 'v runtime \<Rightarrow> 'v runtime" where
  "initEvery this len w =
     Map_forEach (mappings (collections w this)) (callMember (InitCall len)) w"

definition getRegisteredMapsCounter :: "'v runtime \<Rightarrow> int" where
  "getRegisteredMapsCounter w = registeredMaps w"

text \<open>The lengths of the value sequences of the maps registered in a collection, in
  registration order.\<close>

definition memberLengths :: "nat \<Rightarrow> 'v runtime \<Rightarrow> nat list" where
  "memberLengths this w =
     map (\<lambda>(name, indexMap). length (indexedValues (heap w indexMap))) (mappings (collections w this))"

text \<open>A state right after the module is loaded: no collection has a map, the counter is 0.\<close>

definition freshRuntime :: "'v initSource \<Rightarrow> 'v runtime" where
  "freshRuntime src =
     \<lparr>registeredMaps = 0,
      heap = (\<lambda>_. \<lparr>indexedValues = [], initValueOrFn = src\<rparr>),
      collections = (\<lambda>_. \<lparr>mappings = []\<rparr>),
      memberCalls = []\<rparr>"

text \<open>The length of a value sequence of length \<open>n\<close> after a member call.\<close>

fun lengthAfter :: "memberCall \<Rightarrow> nat \<Rightarrow> nat" where
  "lengthAfter (InsertCall insertionIndex insertedIndexes) n =
     (if insertedIndexes = [] then 2 * n else n + length insertedIndexes)"
| "lengthAfter (RemoveCall removedIndexes) n = n - card (set removedIndexes \<inter> {..<n})"
| "lengthAfter (InitCall len) n = len"

text \<open>A series of registrations (collection, name, map) and of unregistrations (collection,
  name), run in list order; \<open>isRegistered\<close> says that a collection has a name.\<close>

definition registerAll :: "(nat \<times> string \<times> ref) list \<Rightarrow> 'v runtime \<Rightarrow> 'v runtime" where
  "registerAll rs w = fold (\<lambda>(this, uniqueName, indexMap). register this uniqueName indexMap) rs w"

definition unregisterAll :: "(nat \<times> string) list \<Rightarrow> 'v runtime \<Rightarrow> 'v runtime" where
  "unregisterAll us w = fold (\<lambda>(this, name). unregister this name) us w"

definition isRegistered :: "'v runtime \<Rightarrow> nat \<Rightarrow> string \<Rightarrow> bool" where
  "isRegistered w this name = Map_has (mappings (collections w this)) name"

section \<open>Selection geometry (3rdparty/walkontable/src/selection.js)\<close>

text \<open>Coordinates are integers; a negative row or column denotes a header cell.\<close>

record CellCoords =
  row :: int
  col :: int

text \<open>
  Modelled from the spec: \<^verbatim>\<open>CellCoords.isEqual\<close> (\<^verbatim>\<open>cell/coords\<close>) is not among the sources.
  Equality of coordinates is value-based.
\<close>

definition isEqual :: "CellCoords \<Rightarrow> CellCoords \<Rightarrow> bool" where
  "isEqual this cellCoords = (row this = row cellCoords \<and> col this = col cellCoords)"

text \<open>The fields \<^verbatim>\<open>from\<close> and \<^verbatim>\<open>to\<close> of a range (both names are reserved words here).\<close>

record CellRange =
  fromCoords :: CellCoords
  toCoords :: CellCoords

text \<open>
  Modelled from the spec: the class \<^verbatim>\<open>CellRange\<close> (\<^verbatim>\<open>cell/range\<close>) is not among the sources.
  A range built from one coordinate is the single-cell range; the top-left and bottom-right
  corners are the component-wise minimum and maximum of \<^verbatim>\<open>from\<close> and \<^verbatim>\<open>to\<close>; expanding a
  range by a coordinate that lies outside its bounding box redefines \<^verbatim>\<open>from\<close> and \<^verbatim>\<open>to\<close> as
  the corners of the bounding box that includes the coordinate, and a coordinate inside the
  box changes nothing.
\<close>

definition newCellRange :: "CellCoords \<Rightarrow> CellRange" where
  "newCellRange coords = \<lparr>fromCoords = coords, toCoords = coords\<rparr>"

definition getTopLeftCorner :: "CellRange \<Rightarrow> CellCoords" where
  "getTopLeftCorner r =
     \<lparr>row = min (row (fromCoords r)) (row (toCoords r)),
      col = min (col (fromCoords r)) (col (toCoords r))\<rparr>"

definition getBottomRightCorner :: "CellRange \<Rightarrow> CellCoords" where
  "getBottomRightCorner r =
     \<lparr>row = max (row (fromCoords r)) (row (toCoords r)),
      col = max (col (fromCoords r)) (col (toCoords r))\<rparr>"

definition expand :: "CellCoords \<Rightarrow> CellRange \<Rightarrow> CellRange" where
  "expand cellCoords r =
     (let topLeft = getTopLeftCorner r; bottomRight = getBottomRightCorner r
      in if row cellCoords < row topLeft \<or> col cellCoords < col topLeft
            \<or> row cellCoords > row bottomRight \<or> col cellCoords > col bottomRight
         then \<lparr>fromCoords = \<lparr>row = min (row topLeft) (row cellCoords),
                             col = min (col topLeft) (col cellCoords)\<rparr>,
               toCoords = \<lparr>row = max (row bottomRight) (row cellCoords),
                           col = max (col bottomRight) (col cellCoords)\<rparr>\<rparr>
         else r)"

text \<open>
  The settings of a selection that \<^verbatim>\<open>selection.js\<close> reads. A class name that is not
  configured is \<^const>\<open>None\<close>; \<open>border\<close> is \<^const>\<open>None\<close> when no border is configured, and
  its \<open>cornerVisible\<close> says whether \<^verbatim>\<open>border.cornerVisible\<close> is a function.
\<close>

record Border =
  cornerVisible :: bool

record Settings =
  className :: "string option"
  border :: "Border option"
  highlightHeaderClassName :: "string option"
  highlightRowClassName :: "string option"
  highlightColumnClassName :: "string option"
  markIntersections :: bool
  layerLevel :: nat

text \<open>
  The border edges descriptor is the empty array, or the array of the settings, the two
  corner cells and the four edge flags. Rendered elements are identified by numbers.
\<close>

datatype descriptorItem = DSettings Settings | DCell nat | DFlag bool

text \<open>
  The state of a \<^verbatim>\<open>Selection\<close>. \<open>instanceSelectionHandles\<close> lists the Walkontable instances
  that own a selection handle. The fields \<^verbatim>\<open>classNames\<close> and \<^verbatim>\<open>classNameGenerator\<close> are read
  and written only while a class is put on a rendered element, which is the rendering
  collaborator's side, and are left out.
\<close>

record Selection =
  settings :: Settings
  cellRange :: "CellRange option"
  instanceSelectionHandles :: "nat list"
  borderEdgesDescriptor :: "descriptorItem list"

datatype jsError = TypeError

definition newSelection :: "Settings \<Rightarrow> CellRange option \<Rightarrow> Selection" where
  "newSelection st initialRange =
     \<lparr>settings = st, cellRange = initialRange, instanceSelectionHandles = [],
      borderEdgesDescriptor = []\<rparr>"

definition hasSelectionHandle :: "Selection \<Rightarrow> bool" where
  "hasSelectionHandle s = (case border (settings s) of None \<Rightarrow> False | Some b \<Rightarrow> cornerVisible b)"

definition getSelectionHandleIfExists :: "Selection \<Rightarrow> nat \<Rightarrow> nat option" where
  "getSelectionHandleIfExists s wotInstance =
     (if wotInstance \<in> set (instanceSelectionHandles s) then Some wotInstance else None)"

text \<open>Returns the handle and the selection, which has stored a new handle if there was none.\<close>

definition getSelectionHandle :: "Selection \<Rightarrow> nat \<Rightarrow> nat \<times> Selection" where
  "getSelectionHandle s wotInstance =
     (case getSelectionHandleIfExists s wotInstance of
        Some found \<Rightarrow> (found, s)
      | None \<Rightarrow> (wotInstance,
                 s\<lparr>instanceSelectionHandles := instanceSelectionHandles s @ [wotInstance]\<rparr>))"

definition isEmpty :: "Selection \<Rightarrow> bool" where
  "isEmpty s = (cellRange s = None)"

definition add :: "CellCoords \<Rightarrow> Selection \<Rightarrow> Selection" where
  "add coords s =
     (if isEmpty s then s\<lparr>cellRange := Some (newCellRange coords)\<rparr>
      else s\<lparr>cellRange := map_option (expand coords) (cellRange s)\<rparr>)"

text \<open>\<^verbatim>\<open>replace\<close> returns its boolean result together with the selection after the call.\<close>

definition replace :: "CellCoords \<Rightarrow> CellCoords \<Rightarrow> Selection \<Rightarrow> bool \<times> Selection" where
  "replace oldCoords newCoords s =
     (case cellRange s of
        Some r \<Rightarrow>
          if isEqual (fromCoords r) oldCoords
          then (True, s\<lparr>cellRange := Some (r\<lparr>fromCoords := newCoords\<rparr>)\<rparr>)
          else if isEqual (toCoords r) oldCoords
          then (True, s\<lparr>cellRange := Some (r\<lparr>toCoords := newCoords\<rparr>)\<rparr>)
          else (False, s)
      | None \<Rightarrow> (False, s))"

definition clear :: "Selection \<Rightarrow> Selection" where
  "clear s = s\<lparr>cellRange := None\<rparr>"

text \<open>Reading the corners of a selection with no range is a \<^verbatim>\<open>TypeError\<close>.\<close>

definition getCorners :: "Selection \<Rightarrow> jsError + int list" where
  "getCorners s =
     (case cellRange s of
        None \<Rightarrow> Inl TypeError
      | Some r \<Rightarrow>
          (let topLeft = getTopLeftCorner r; bottomRight = getBottomRightCorner r
           in Inr [row topLeft, col topLeft, row bottomRight, col bottomRight]))"

definition getBorderEdgesDescriptor :: "Selection \<Rightarrow> descriptorItem list" where
  "getBorderEdgesDescriptor s = borderEdgesDescriptor s"


section \<open>Selection render planning (\<^verbatim>\<open>Selection.draw\<close>)\<close>

text \<open>
  The Walkontable instance is an external collaborator; the model holds what \<^verbatim>\<open>draw\<close> asks
  of it. A cell lookup gives a rendered element, a number (the cell is not rendered) or
  nothing. A neighbour table that the table object does not provide is \<^const>\<open>None\<close>;
  calling it is a \<^verbatim>\<open>TypeError\<close>. \<^verbatim>\<open>getLastRenderedRow\<close> and \<^verbatim>\<open>getLastRenderedColumn\<close> are
  \<^verbatim>\<open>null\<close> (\<^const>\<open>None\<close>) when nothing is rendered.
\<close>

datatype cell = TD nat | NotRendered int | NoCell

record NeighbourTable =
  neighbourFirstVisibleRow :: int
  neighbourLastVisibleRow :: int
  neighbourFirstVisibleColumn :: int

record Table =
  getRenderedRowsCount :: nat
  getRenderedColumnsCount :: nat
  getFirstRenderedRow :: int
  getFirstRenderedColumn :: int
  getLastRenderedRow :: "int option"
  getLastRenderedColumn :: "int option"
  getFirstVisibleRow :: int
  getLastVisibleRow :: int
  getLastVisibleColumn :: int
  eastNeighbourTable :: "NeighbourTable option"
  southNeighbourTable :: "NeighbourTable option"
  northNeighbourTable :: "NeighbourTable option"
  diagonalNeighbourTable :: "NeighbourTable option"
  getCell :: "int \<Rightarrow> int \<Rightarrow> cell"
  getColumnHeader :: "int \<Rightarrow> nat option"
  getRowHeader :: "int \<Rightarrow> nat option"
  rowRenderedToSource :: "nat \<Rightarrow> int"
  columnRenderedToSource :: "nat \<Rightarrow> int"

record Walkontable =
  instanceId :: nat
  wtTable :: Table
  getCellAnyOverlay :: "int \<Rightarrow> int \<Rightarrow> cell"
  onAfterDrawSelection :: "int \<Rightarrow> int \<Rightarrow> int list \<Rightarrow> nat \<Rightarrow> string option"

text \<open>
  What \<^verbatim>\<open>draw\<close> does to its collaborators, in order: classes put on a header element or on
  a cell element (with the flag for marking intersections, under which the rendering side
  derives the layered class name), the hook before the borders are drawn, and the calls on
  the selection handle.
\<close>

datatype drawEvent =
    AddClass nat "string option list"
  | AddCellClass nat string bool
  | OnBeforeDrawBorders "int list" "string option"
  | Disappear nat
  | Appear nat "int list"

text \<open>JavaScript coercions: \<^verbatim>\<open>null\<close> is 0 in arithmetic and comparisons; a class name is
  truthy when it is a non-empty string.\<close>

definition toNumber :: "int option \<Rightarrow> int" where
  "toNumber v = (case v of None \<Rightarrow> 0 | Some n \<Rightarrow> n)"

definition truthy :: "string option \<Rightarrow> bool" where
  "truthy v = (case v of None \<Rightarrow> False | Some name \<Rightarrow> name \<noteq> [])"

definition whenTruthy :: "string option \<Rightarrow> (string \<Rightarrow> 'a list) \<Rightarrow> 'a list" where
  "whenTruthy v f = (case v of None \<Rightarrow> [] | Some name \<Rightarrow> if name \<noteq> [] then f name else [])"

definition addClassAtCoords :: "Walkontable \<Rightarrow> int \<Rightarrow> int \<Rightarrow> string \<Rightarrow> bool \<Rightarrow> drawEvent list" where
  "addClassAtCoords wotInstance sourceRow sourceColumn name markIntersect =
     (case getCell (wtTable wotInstance) sourceRow sourceColumn of
        TD element \<Rightarrow> [AddCellClass element name markIntersect]
      | NotRendered n \<Rightarrow> []
      | NoCell \<Rightarrow> [])"

definition addClassIfElemExists :: "nat option \<Rightarrow> string option list \<Rightarrow> drawEvent list" where
  "addClassIfElemExists elem classNames =
     (case elem of Some element \<Rightarrow> [AddClass element classNames] | None \<Rightarrow> [])"

definition getRelevantCell ::
  "Walkontable \<Rightarrow> int \<Rightarrow> int \<Rightarrow> int \<Rightarrow> int option \<Rightarrow> int option \<Rightarrow> jsError + nat option" where
  "getRelevantCell wotInstance r c firstRenderedRow lastRenderedRow lastRenderedColumn =
     (case getCell (wtTable wotInstance) r c of
        TD element \<Rightarrow> Inr (Some element)
      | NoCell \<Rightarrow> Inr None
      | NotRendered n \<Rightarrow>
          (let container =
                 (if (r > toNumber lastRenderedRow \<and> c > toNumber lastRenderedColumn)
                     \<or> (c > toNumber lastRenderedColumn \<and> r < firstRenderedRow)
                  then Some (diagonalNeighbourTable (wtTable wotInstance))
                  else if r > toNumber lastRenderedRow
                  then Some (southNeighbourTable (wtTable wotInstance))
                  else if c > toNumber lastRenderedColumn
                  then Some (eastNeighbourTable (wtTable wotInstance))
                  else if r < firstRenderedRow
                  then Some (northNeighbourTable (wtTable wotInstance))
                  else None)
           in if container = Some None then Inl TypeError
              else (case getCellAnyOverlay wotInstance r c of
                      TD element \<Rightarrow> Inr (Some element)
                    | NotRendered m \<Rightarrow> Inr None
                    | NoCell \<Rightarrow> Inr None)))"

definition renderingOffsetEast :: "Table \<Rightarrow> int" where
  "renderingOffsetEast t =
     (case eastNeighbourTable t of
        Some east \<Rightarrow> if neighbourFirstVisibleColumn east = getLastVisibleColumn t + 1 then 1 else 0
      | None \<Rightarrow> 0)"

definition renderingOffsetSouth :: "Table \<Rightarrow> int" where
  "renderingOffsetSouth t =
     (case southNeighbourTable t of
        Some south \<Rightarrow> if neighbourFirstVisibleRow south = getLastVisibleRow t + 1 then 1 else 0
      | None \<Rightarrow> 0)"

definition renderingOffsetNorth :: "Table \<Rightarrow> int" where
  "renderingOffsetNorth t =
     (case northNeighbourTable t of
        Some north \<Rightarrow> if neighbourLastVisibleRow north = getFirstVisibleRow t - 1 then - 1 else 0
      | None \<Rightarrow> 0)"

text \<open>The clipped bounds; \<open>corners\<close> is the array that \<^const>\<open>getCorners\<close> returns, of four
  entries.\<close>

definition highlightFirstRenderedRow :: "Table \<Rightarrow> int list \<Rightarrow> int" where
  "highlightFirstRenderedRow t corners =
     max (corners ! 0) (getFirstRenderedRow t + renderingOffsetNorth t)"

definition highlightFirstRenderedColumn :: "Table \<Rightarrow> int list \<Rightarrow> int" where
  "highlightFirstRenderedColumn t corners = max (corners ! 1) (getFirstRenderedColumn t)"

definition highlightLastRenderedRow :: "Table \<Rightarrow> int list \<Rightarrow> int" where
  "highlightLastRenderedRow t corners =
     min (corners ! 2) (toNumber (getLastRenderedRow t) + renderingOffsetSouth t)"

definition highlightLastRenderedColumn :: "Table \<Rightarrow> int list \<Rightarrow> int" where
  "highlightLastRenderedColumn t corners =
     min (corners ! 3) (toNumber (getLastRenderedColumn t) + renderingOffsetEast t)"

text \<open>The first loop of \<^verbatim>\<open>draw\<close>: column headers and column bands.\<close>

definition drawColumnHighlight :: "Walkontable \<Rightarrow> Settings \<Rightarrow> int list \<Rightarrow> drawEvent list" where
  "drawColumnHighlight wotInstance st corners =
     (let t = wtTable wotInstance in
      if getRenderedColumnsCount t \<noteq> 0
         \<and> (truthy (highlightHeaderClassName st) \<or> truthy (highlightColumnClassName st))
      then concat (map (\<lambda>sourceColumn.
             addClassIfElemExists (getColumnHeader t sourceColumn)
               [highlightHeaderClassName st, highlightColumnClassName st]
             @ whenTruthy (highlightColumnClassName st) (\<lambda>name.
                 concat (map (\<lambda>renderedRow.
                   if int renderedRow < highlightFirstRenderedRow t corners
                      \<or> int renderedRow > highlightLastRenderedRow t corners
                   then addClassAtCoords wotInstance (rowRenderedToSource t renderedRow)
                          sourceColumn name False
                   else [])
                 [0..<getRenderedRowsCount t])))
             [highlightFirstRenderedColumn t corners .. highlightLastRenderedColumn t corners])
      else [])"

text \<open>The second loop: row headers and row bands.\<close>

definition drawRowHighlight :: "Walkontable \<Rightarrow> Settings \<Rightarrow> int list \<Rightarrow> drawEvent list" where
  "drawRowHighlight wotInstance st corners =
     (let t = wtTable wotInstance in
      if getRenderedRowsCount t \<noteq> 0
         \<and> (truthy (highlightHeaderClassName st) \<or> truthy (highlightRowClassName st))
      then concat (map (\<lambda>sourceRow.
             addClassIfElemExists (getRowHeader t sourceRow)
               [highlightHeaderClassName st, highlightRowClassName st]
             @ whenTruthy (highlightRowClassName st) (\<lambda>name.
                 concat (map (\<lambda>renderedColumn.
                   if int renderedColumn < highlightFirstRenderedColumn t corners
                      \<or> int renderedColumn > highlightLastRenderedColumn t corners
                   then addClassAtCoords wotInstance sourceRow
                          (columnRenderedToSource t renderedColumn) name False
                   else [])
                 [0..<getRenderedColumnsCount t])))
             [highlightFirstRenderedRow t corners .. highlightLastRenderedRow t corners])
      else [])"

text \<open>The border edges descriptor computed by \<^verbatim>\<open>draw\<close> (the empty array when none is
  emitted).\<close>

definition drawBorderEdges ::
  "Walkontable \<Rightarrow> Settings \<Rightarrow> int list \<Rightarrow> jsError + descriptorItem list" where
  "drawBorderEdges wotInstance st corners =
     (let t = wtTable wotInstance in
      if getRenderedRowsCount t \<noteq> 0 \<and> getRenderedColumnsCount t \<noteq> 0
         \<and> border st \<noteq> None
         \<and> highlightFirstRenderedRow t corners \<le> highlightLastRenderedRow t corners
         \<and> highlightFirstRenderedColumn t corners \<le> highlightLastRenderedColumn t corners
      then
        (let hasTopEdge = (highlightFirstRenderedRow t corners = corners ! 0);
             hasRightEdge = (highlightLastRenderedColumn t corners = corners ! 3);
             hasBottomEdge = (highlightLastRenderedRow t corners = corners ! 2);
             hasLeftEdge = (highlightFirstRenderedColumn t corners = corners ! 1)
         in case getRelevantCell wotInstance (highlightFirstRenderedRow t corners)
                   (highlightFirstRenderedColumn t corners) (getFirstRenderedRow t)
                   (getLastRenderedRow t) (getLastRenderedColumn t) of
              Inl e \<Rightarrow> Inl e
            | Inr firstTd \<Rightarrow>
                (case (if highlightFirstRenderedRow t corners = highlightLastRenderedRow t corners
                          \<and> highlightFirstRenderedColumn t corners = highlightLastRenderedColumn t corners
                       then Inr firstTd
                       else getRelevantCell wotInstance (highlightLastRenderedRow t corners)
                              (highlightLastRenderedColumn t corners) (getFirstRenderedRow t)
                              (getLastRenderedRow t) (getLastRenderedColumn t)) of
                   Inl e \<Rightarrow> Inl e
                 | Inr lastTd \<Rightarrow>
                     (case (firstTd, lastTd) of
                        (Some firstElement, Some lastElement) \<Rightarrow>
                          Inr [DSettings st, DCell firstElement, DCell lastElement,
                               DFlag hasTopEdge, DFlag hasRightEdge, DFlag hasBottomEdge,
                               DFlag hasLeftEdge]
                      | _ \<Rightarrow> Inr [])))
      else Inr [])"

text \<open>The third loop: the selection classes of the body cells of the clipped rectangle.\<close>

definition drawBody :: "Walkontable \<Rightarrow> Settings \<Rightarrow> int list \<Rightarrow> drawEvent list" where
  "drawBody wotInstance st corners =
     (let t = wtTable wotInstance in
      if getRenderedRowsCount t \<noteq> 0 \<and> getRenderedColumnsCount t \<noteq> 0
      then concat (map (\<lambda>sourceRow. concat (map (\<lambda>sourceColumn.
             (if sourceRow \<ge> highlightFirstRenderedRow t corners
                 \<and> sourceRow \<le> highlightLastRenderedRow t corners
                 \<and> sourceColumn \<ge> highlightFirstRenderedColumn t corners
                 \<and> sourceColumn \<le> highlightLastRenderedColumn t corners
              then whenTruthy (className st) (\<lambda>name.
                     addClassAtCoords wotInstance sourceRow sourceColumn name (markIntersections st))
              else [])
             @ whenTruthy (className st) (\<lambda>name.
                 case onAfterDrawSelection wotInstance sourceRow sourceColumn corners (layerLevel st) of
                   Some additionalSelectionClass \<Rightarrow>
                     addClassAtCoords wotInstance sourceRow sourceColumn additionalSelectionClass False
                 | None \<Rightarrow> []))
             [highlightFirstRenderedColumn t corners .. highlightLastRenderedColumn t corners]))
             [highlightFirstRenderedRow t corners .. highlightLastRenderedRow t corners])
      else [])"

text \<open>
  \<^verbatim>\<open>draw\<close>: the selection after the call and the events, or the error that ends the call.
\<close>

definition draw :: "Walkontable \<Rightarrow> Selection \<Rightarrow> jsError + (Selection \<times> drawEvent list)" where
  "draw wotInstance this =
     (let s = this\<lparr>borderEdgesDescriptor := []\<rparr> in
      if isEmpty s
      then Inr (s, if hasSelectionHandle s
                   then (case getSelectionHandleIfExists s (instanceId wotInstance) of
                           Some found \<Rightarrow> [Disappear found]
                         | None \<Rightarrow> [])
                   else [])
      else
        (case getCorners s of
           Inl e \<Rightarrow> Inl e
         | Inr corners \<Rightarrow>
             (let headers = drawColumnHighlight wotInstance (settings s) corners
                            @ drawRowHighlight wotInstance (settings s) corners
              in case drawBorderEdges wotInstance (settings s) corners of
                   Inl e \<Rightarrow> Inl e
                 | Inr descriptor \<Rightarrow>
                     (let s1 = s\<lparr>borderEdgesDescriptor := descriptor\<rparr>;
                          events = headers @ drawBody wotInstance (settings s) corners
                                   @ [OnBeforeDrawBorders corners (className (settings s))]
                      in if hasSelectionHandle s1
                         then (case getSelectionHandle s1 (instanceId wotInstance) of
                                 (handle, s2) \<Rightarrow> Inr (s2, events @ [Appear handle corners]))
                         else Inr (s1, events)))))"


section \<open>Example states\<close>

text \<open>A collection with two maps of length 3, and the same with one map object registered
  under two names, each built by the operations of the collection.\<close>

definition twoMaps :: "int runtime" where
  "twoMaps =
     initEvery 0 3 (register 0 ''widths'' 1 (register 0 ''heights'' 0
       (freshRuntime (InitValue 0))))"

definition sharedMap :: "int runtime" where
  "sharedMap =
     initEvery 0 3 (register 0 ''c'' 1 (register 0 ''b'' 0 (register 0 ''a'' 0
       (freshRuntime (InitValue 0)))))"

text \<open>A window of rendered rows 0..8 and columns 0..11 with no neighbour tables, in which
  the element of a rendered cell is numbered row by row.\<close>

definition exampleTable :: Table where
  "exampleTable =
     \<lparr>getRenderedRowsCount = 9, getRenderedColumnsCount = 12,
      getFirstRenderedRow = 0, getFirstRenderedColumn = 0,
      getLastRenderedRow = Some 8, getLastRenderedColumn = Some 11,
      getFirstVisibleRow = 0, getLastVisibleRow = 8, getLastVisibleColumn = 11,
      eastNeighbourTable = None, southNeighbourTable = None,
      northNeighbourTable = None, diagonalNeighbourTable = None,
      getCell = (\<lambda>r c. if 0 \<le> r \<and> r \<le> 8 \<and> 0 \<le> c \<and> c \<le> 11
                        then TD (nat (r * 12 + c)) else NotRendered (- 1)),
      getColumnHeader = (\<lambda>c. None), getRowHeader = (\<lambda>r. None),
      rowRenderedToSource = int, columnRenderedToSource = int\<rparr>"

definition exampleWalkontable :: Walkontable where
  "exampleWalkontable =
     \<lparr>instanceId = 0, wtTable = exampleTable,
      getCellAnyOverlay = getCell exampleTable,
      onAfterDrawSelection = (\<lambda>r c corners level. None)\<rparr>"

definition exampleSettings :: Settings where
  "exampleSettings =
     \<lparr>className = Some ''area'', border = Some \<lparr>cornerVisible = False\<rparr>,
      highlightHeaderClassName = None, highlightRowClassName = None,
      highlightColumnClassName = None, markIntersections = False, layerLevel = 0\<rparr>"

definition cellAt :: "int \<Rightarrow> int \<Rightarrow> CellCoords" where
  "cellAt r c = \<lparr>row = r, col = c\<rparr>"

definition rangeOf :: "CellCoords \<Rightarrow> CellCoords \<Rightarrow> CellRange" where
  "rangeOf a b = \<lparr>fromCoords = a, toCoords = b\<rparr>"

section \<open>The ordered list transform: proofs\<close>

lemma slice_prefix: "slice xs (Some 0) (Some p) = take p xs"
  by (cases "p \<le> length xs") (simp_all add: slice_def min_def)

lemma slice_suffix: "slice xs (Some p) None = drop p xs"
  by (cases "p \<le> length xs") (simp_all add: slice_def min_def)

lemma length_mapWithIndex: "length (mapWithIndex f xs) = length xs"
  by (simp add: mapWithIndex_def)

lemma nth_mapWithIndex: "k < length xs \<Longrightarrow> mapWithIndex f xs ! k = f (xs ! k) k"
  by (simp add: mapWithIndex_def nth_enumerate_eq)

lemma inserted_nonempty:
  "B \<noteq> [] \<Longrightarrow> getListWithInsertedItems L i B v =
     take (hd B) L @ mapWithIndex (insertedValue v) B @ drop (hd B) L"
  by (cases B)
    (simp_all add: getListWithInsertedItems_def firstInsertedIndex_def slice_prefix slice_suffix)

lemma inserted_empty: "getListWithInsertedItems L i [] v = L @ L"
  by (simp add: getListWithInsertedItems_def firstInsertedIndex_def slice_def mapWithIndex_def)

lemma arrayFilter_append:
  "arrayFilter (xs @ ys) P = arrayFilter xs P @ arrayFilter ys (\<lambda>x i. P x (length xs + i))"
proof -
  have shift: "map snd (filter (\<lambda>(index, x). P x index) (List.enumerate n ys))
      = map snd (filter (\<lambda>(index, x). P x (n + index)) (List.enumerate 0 ys))" for n
  proof (induction ys arbitrary: n P)
    case Nil
    show ?case by simp
  next
    case (Cons y ys)
    have "map snd (filter (\<lambda>(index, x). P x index) (List.enumerate (Suc n) ys))
      = map snd (filter (\<lambda>(index, x). P x (Suc n + index)) (List.enumerate 0 ys))"
      by (rule Cons.IH)
    moreover have "map snd (filter (\<lambda>(index, x). P x (n + index)) (List.enumerate (Suc 0) ys))
      = map snd (filter (\<lambda>(index, x). P x (n + (Suc 0 + index))) (List.enumerate 0 ys))"
      using Cons.IH [of "\<lambda>x i. P x (n + i)" "Suc 0"] by simp
    ultimately show ?case by simp
  qed
  show ?thesis
    unfolding arrayFilter_def enumerate_append_eq filter_append map_append
    using shift [of "length xs"] by simp
qed

lemma arrayFilter_all:
  assumes "\<And>x i. i < length xs \<Longrightarrow> P x i"
  shows "arrayFilter xs P = xs"
proof -
  have "filter (\<lambda>(index, x). P x index) (List.enumerate 0 xs) = List.enumerate 0 xs"
    by (rule filter_True) (auto simp: in_set_enumerate_eq assms)
  then show ?thesis by (simp add: arrayFilter_def)
qed

lemma arrayFilter_none:
  assumes "\<And>x i. i < length xs \<Longrightarrow> \<not> P x i"
  shows "arrayFilter xs P = []"
proof -
  have "filter (\<lambda>(index, x). P x index) (List.enumerate 0 xs) = []"
    by (rule filter_False) (auto simp: in_set_enumerate_eq assms)
  then show ?thesis by (simp add: arrayFilter_def)
qed

lemma length_arrayFilter:
  "length (arrayFilter xs P) = card {i. i < length xs \<and> P (xs ! i) i}"
proof -
  have "length (arrayFilter xs P) = length (filter (\<lambda>(index, x). P x index) (List.enumerate 0 xs))"
    by (simp add: arrayFilter_def)
  also have "\<dots> = card {k. k < length xs \<and> P (xs ! k) k}"
    by (simp add: length_filter_conv_card nth_enumerate_eq cong: conj_cong)
  finally show ?thesis .
qed

lemma length_inserted:
  "length (getListWithInsertedItems L i B v) =
     (if B = [] then 2 * length L else length L + length B)"
proof (cases "B = []")
  case True
  then show ?thesis by (simp add: inserted_empty)
next
  case False
  have "min (length L) (hd B) + (length L - hd B) = length L" by arith
  then show ?thesis using False by (simp add: inserted_nonempty length_mapWithIndex)
qed

lemma length_removed:
  "length (getListWithRemovedItems L R) = length L - card (set R \<inter> {..<length L})"
proof -
  have "length (getListWithRemovedItems L R) = card ({..<length L} - set R)"
    unfolding getListWithRemovedItems_def length_arrayFilter
    by (rule arg_cong [where f = card]) (auto simp: List.member_iff)
  also have "\<dots> = card {..<length L} - card (set R \<inter> {..<length L})"
    by (simp add: card_Diff_subset_Int Int_commute)
  finally show ?thesis by simp
qed

text \<open>
  C2. For a non-empty batch \<open>B\<close> of inserted indexes with \<open>B[0] \<le> length L\<close>,
  \<^const>\<open>getListWithInsertedItems\<close> returns a list of length \<open>length L + length B\<close>: the
  elements of \<open>L\<close> before position \<open>B[0]\<close> unchanged, then the \<open>length B\<close> new entries from
  position \<open>B[0]\<close> on, the \<open>k\<close>-th being the value itself when it is not a function and the
  function applied to \<open>B[k]\<close> and \<open>k\<close> otherwise, then the remaining elements of \<open>L\<close>. (The
  function builds a new list from copies; nothing writes to the input.)
\<close>

theorem C2_inserted_items:
  assumes "B \<noteq> []" and "hd B \<le> length L"
  shows "length (getListWithInsertedItems L i B v) = length L + length B
    \<and> take (hd B) (getListWithInsertedItems L i B v) = take (hd B) L
    \<and> (\<forall>k < length B. getListWithInsertedItems L i B v ! (hd B + k) =
          (case v of PlainValue x \<Rightarrow> x | ValueFn f \<Rightarrow> f (B ! k) k))
    \<and> drop (hd B + length B) (getListWithInsertedItems L i B v) = drop (hd B) L"
proof -
  let ?new = "mapWithIndex (insertedValue v) B"
  have eq: "getListWithInsertedItems L i B v = take (hd B) L @ ?new @ drop (hd B) L"
    using assms(1) by (rule inserted_nonempty)
  have lt: "length (take (hd B) L) = hd B" using assms(2) by simp
  have ln: "length ?new = length B" by (simp add: length_mapWithIndex)
  have 1: "length (getListWithInsertedItems L i B v) = length L + length B"
    using assms(2) by (simp add: eq ln)
  have 2: "take (hd B) (getListWithInsertedItems L i B v) = take (hd B) L"
    using lt by (simp add: eq)
  have 3: "getListWithInsertedItems L i B v ! (hd B + k) =
          (case v of PlainValue x \<Rightarrow> x | ValueFn f \<Rightarrow> f (B ! k) k)" if "k < length B" for k
  proof -
    have "getListWithInsertedItems L i B v ! (hd B + k) = (?new @ drop (hd B) L) ! k"
      using lt by (simp add: eq nth_append)
    also have "\<dots> = ?new ! k" using that by (simp add: nth_append ln)
    also have "\<dots> = insertedValue v (B ! k) k" using that by (rule nth_mapWithIndex)
    also have "\<dots> = (case v of PlainValue x \<Rightarrow> x | ValueFn f \<Rightarrow> f (B ! k) k)"
      by (cases v) simp_all
    finally show ?thesis .
  qed
  have 4: "drop (hd B + length B) (getListWithInsertedItems L i B v) = drop (hd B) L"
    using lt ln by (simp add: eq)
  from 1 2 3 4 show ?thesis by blast
qed

theorem C2_inserted_items_witness:
  "[2, 5] \<noteq> ([] :: nat list) \<and> hd [2, 5 :: nat] \<le> length [0, 1, 2, 3, 4 :: int]
   \<and> getListWithInsertedItems [0, 1, 2, 3, 4 :: int] 2 [2, 5] (ValueFn (\<lambda>index ordinal. - 1))
       = [0, 1, - 1, - 1, 2, 3, 4]
   \<and> length (getListWithInsertedItems [0, 1, 2, 3, 4 :: int] 2 [2, 5]
       (ValueFn (\<lambda>index ordinal. - 1))) = 5 + 2"
proof -
  have b: "[2, 5] \<noteq> ([] :: nat list)" by simp
  have h: "hd [2, 5 :: nat] \<le> length [0, 1, 2, 3, 4 :: int]" by simp
  have e: "getListWithInsertedItems [0, 1, 2, 3, 4 :: int] 2 [2, 5] (ValueFn (\<lambda>index ordinal. - 1))
       = [0, 1, - 1, - 1, 2, 3, 4]"
    by (simp add: getListWithInsertedItems_def firstInsertedIndex_def slice_def mapWithIndex_def)
  from C2_inserted_items [OF b h, of 2 "ValueFn (\<lambda>index ordinal. - 1)"] b h e
  show ?thesis by simp
qed

text \<open>
  C3. For a non-empty batch \<open>B\<close> with \<open>B[0] \<le> length L\<close>: removing from
  \<open>insertItems(L, i, B, v)\<close> the positions that the inserted batch occupies, \<open>B[0]\<close> to
  \<open>B[0] + length B - 1\<close> (given in any order), yields \<open>L\<close> again.
\<close>

theorem C3_insert_then_remove:
  assumes "B \<noteq> []" and "hd B \<le> length L"
      and "set R = {hd B ..< hd B + length B}"
  shows "getListWithRemovedItems (getListWithInsertedItems L i B v) R = L"
proof -
  let ?p = "hd B"
  let ?new = "mapWithIndex (insertedValue v) B"
  let ?P = "\<lambda>(_::'a) index. List.member R index = False"
  have eq: "getListWithInsertedItems L i B v = take ?p L @ ?new @ drop ?p L"
    using assms(1) by (rule inserted_nonempty)
  have ln: "length ?new = length B" by (simp add: length_mapWithIndex)
  have m: "min (length L) ?p = ?p" using assms(2) by simp
  have a: "arrayFilter (take ?p L) ?P = take ?p L"
    by (rule arrayFilter_all) (simp add: List.member_iff assms(3))
  have b: "arrayFilter ?new (\<lambda>x i. ?P x (length (take ?p L) + i)) = []"
    by (rule arrayFilter_none) (simp add: List.member_iff assms(3) m ln)
  have c: "arrayFilter (drop ?p L) (\<lambda>x i. ?P x (length (take ?p L) + (length ?new + i))) = drop ?p L"
    by (rule arrayFilter_all) (simp add: List.member_iff assms(3) m ln)
  have "getListWithRemovedItems (getListWithInsertedItems L i B v) R
      = arrayFilter (take ?p L @ ?new @ drop ?p L) ?P"
    by (simp add: getListWithRemovedItems_def eq)
  also have "\<dots> = take ?p L @ [] @ drop ?p L"
    by (simp only: arrayFilter_append a b c)
  finally show ?thesis by simp
qed

theorem C3_insert_then_remove_witness:
  "[2, 5] \<noteq> ([] :: nat list) \<and> hd [2, 5 :: nat] \<le> length [0, 1, 2, 3, 4 :: int]
   \<and> set [3, 2] = {hd [2, 5 :: nat] ..< hd [2, 5] + length [2, 5 :: nat]}
   \<and> getListWithRemovedItems
        (getListWithInsertedItems [0, 1, 2, 3, 4 :: int] 2 [2, 5] (PlainValue 9)) [3, 2]
       = [0, 1, 2, 3, 4]"
proof -
  have b: "[2, 5] \<noteq> ([] :: nat list)" by simp
  have h: "hd [2, 5 :: nat] \<le> length [0, 1, 2, 3, 4 :: int]" by simp
  have r: "set [3, 2] = {hd [2, 5 :: nat] ..< hd [2, 5] + length [2, 5 :: nat]}" by auto
  from C3_insert_then_remove [OF b h r, of 2 "PlainValue 9"] b h r
  show ?thesis by blast
qed

text \<open>
  C9. For a non-empty batch \<open>B\<close>, the result of \<^const>\<open>getListWithInsertedItems\<close> is the
  same for every value of the \<open>insertionIndex\<close> argument: the list is split at the first
  element of the batch and nowhere else.
\<close>

theorem C9_insertion_index_unused:
  assumes "B \<noteq> []"
  shows "getListWithInsertedItems L i B v = getListWithInsertedItems L j B v
    \<and> getListWithInsertedItems L i B v =
        take (hd B) L @ mapWithIndex (insertedValue v) B @ drop (hd B) L"
  using assms by (simp add: inserted_nonempty)

theorem C9_insertion_index_unused_witness:
  "[1, 2] \<noteq> ([] :: nat list)
   \<and> getListWithInsertedItems [10, 20, 30 :: int] 0 [1, 2] (PlainValue 7)
     = getListWithInsertedItems [10, 20, 30] 3 [1, 2] (PlainValue 7)
   \<and> getListWithInsertedItems [10, 20, 30 :: int] 0 [1, 2] (PlainValue 7) = [10, 7, 7, 20, 30]"
proof -
  have b: "[1, 2] \<noteq> ([] :: nat list)" by simp
  from C9_insertion_index_unused [OF b, of "[10, 20, 30 :: int]" 0 "PlainValue 7" 3]
  have same: "getListWithInsertedItems [10, 20, 30 :: int] 0 [1, 2] (PlainValue 7)
       = getListWithInsertedItems [10, 20, 30] 3 [1, 2] (PlainValue 7)"
    and split: "getListWithInsertedItems [10, 20, 30 :: int] 0 [1, 2] (PlainValue 7)
       = take (hd [1, 2]) [10, 20, 30] @ mapWithIndex (insertedValue (PlainValue 7)) [1, 2]
         @ drop (hd [1, 2]) [10, 20, 30]"
    by blast+
  have "take (hd [1, 2]) [10, 20, 30 :: int] @ mapWithIndex (insertedValue (PlainValue 7)) [1, 2]
         @ drop (hd [1, 2]) [10, 20, 30] = [10, 7, 7, 20, 30]"
    by (simp add: mapWithIndex_def)
  with split have "getListWithInsertedItems [10, 20, 30 :: int] 0 [1, 2] (PlainValue 7)
       = [10, 7, 7, 20, 30]"
    by (rule trans)
  with b same show ?thesis by blast
qed

text \<open>
  C10. With an empty batch of inserted indexes, \<^const>\<open>getListWithInsertedItems\<close> returns
  the list concatenated with itself, of twice its length: the bound taken from the first
  element of the batch is undefined, and both slices copy the whole list.
\<close>

theorem C10_empty_batch_doubles:
  "getListWithInsertedItems L i [] v = L @ L
   \<and> length (getListWithInsertedItems L i [] v) = 2 * length L
   \<and> firstInsertedIndex [] = None
   \<and> slice L (Some 0) None = L \<and> slice L None None = L"
  by (simp add: inserted_empty firstInsertedIndex_def slice_def)

theorem C10_empty_batch_doubles_witness:
  "getListWithInsertedItems [1, 2, 3 :: int] 1 [] (PlainValue 0) = [1, 2, 3, 1, 2, 3]
   \<and> length (getListWithInsertedItems [1, 2, 3 :: int] 1 [] (PlainValue 0)) = 6"
  using C10_empty_batch_doubles [of "[1, 2, 3 :: int]" 1 "PlainValue 0"] by simp


section \<open>The map collection: proofs\<close>

lemma length_applyCall:
  "length (indexedValues (applyCall call m)) = lengthAfter call (length (indexedValues m))"
proof (cases call)
  case (InsertCall i B)
  then show ?thesis by (simp add: IndexMap_insert_def length_inserted)
next
  case (RemoveCall R)
  then show ?thesis by (simp add: IndexMap_remove_def length_removed)
next
  case (InitCall len)
  then show ?thesis by (cases "initValueOrFn m") (simp_all add: IndexMap_init_def)
qed

lemma IndexMap_init_twice: "IndexMap_init k (IndexMap_init k m) = IndexMap_init k m"
  by (simp add: IndexMap_init_def)

lemma length_IndexMap_init: "length (indexedValues (IndexMap_init k m)) = k"
  by (cases "initValueOrFn m") (simp_all add: IndexMap_init_def)

lemma forEach_calls:
  "memberCalls (Map_forEach es (callMember call) w) =
     memberCalls w @ map (\<lambda>(name, m). (m, call)) es"
  unfolding Map_forEach_def
  by (induction es arbitrary: w) (auto simp: callMember_def)

lemma forEach_frame:
  "collections (Map_forEach es (callMember call) w) = collections w
   \<and> registeredMaps (Map_forEach es (callMember call) w) = registeredMaps w"
  unfolding Map_forEach_def
  by (induction es arbitrary: w) (auto simp: callMember_def)

lemma forEach_heap_other:
  "r \<notin> snd ` set es \<Longrightarrow> heap (Map_forEach es (callMember call) w) r = heap w r"
  unfolding Map_forEach_def
  by (induction es arbitrary: w) (auto simp: callMember_def)

lemma forEach_heap_member:
  "distinct (map snd es) \<Longrightarrow> r \<in> snd ` set es \<Longrightarrow>
     heap (Map_forEach es (callMember call) w) r = applyCall call (heap w r)"
proof (induction es arbitrary: w)
  case Nil
  then show ?case by simp
next
  case (Cons e es)
  obtain name m where e: "e = (name, m)" by (cases e)
  have step: "Map_forEach (e # es) (callMember call) w =
      Map_forEach es (callMember call) (callMember call m w)"
    by (simp add: Map_forEach_def e)
  show ?case
  proof (cases "r = m")
    case True
    then have "r \<notin> snd ` set es" using Cons.prems(1) e by (simp add: image_iff)
    then have "heap (Map_forEach es (callMember call) (callMember call m w)) r =
        heap (callMember call m w) r"
      by (rule forEach_heap_other)
    then show ?thesis unfolding step using True by (simp add: callMember_def)
  next
    case False
    then have "r \<in> snd ` set es" using Cons.prems(2) e by auto
    moreover have "distinct (map snd es)" using Cons.prems(1) by simp
    ultimately have "heap (Map_forEach es (callMember call) (callMember call m w)) r
        = applyCall call (heap (callMember call m w) r)"
      by (rule Cons.IH [rotated])
    then show ?thesis unfolding step using False by (simp add: callMember_def)
  qed
qed

text \<open>Initialising twice is initialising once, so \<^verbatim>\<open>init\<close> needs no distinctness.\<close>

lemma forEach_heap_init:
  "r \<in> snd ` set es \<Longrightarrow>
     heap (Map_forEach es (callMember (InitCall k)) w) r = IndexMap_init k (heap w r)"
proof (induction es arbitrary: w)
  case Nil
  then show ?case by simp
next
  case (Cons e es)
  obtain name m where e: "e = (name, m)" by (cases e)
  let ?w = "callMember (InitCall k) m w"
  have step: "Map_forEach (e # es) (callMember (InitCall k)) w =
      Map_forEach es (callMember (InitCall k)) ?w"
    by (simp add: Map_forEach_def e)
  have first: "heap ?w r = (if r = m then IndexMap_init k (heap w r) else heap w r)"
    by (simp add: callMember_def)
  show ?case
  proof (cases "r \<in> snd ` set es")
    case True
    then have "heap (Map_forEach es (callMember (InitCall k)) ?w) r = IndexMap_init k (heap ?w r)"
      by (rule Cons.IH)
    then show ?thesis unfolding step by (simp add: first IndexMap_init_twice)
  next
    case False
    then have m: "r = m" using Cons.prems e by auto
    have "heap (Map_forEach es (callMember (InitCall k)) ?w) r = heap ?w r"
      using False by (rule forEach_heap_other)
    then show ?thesis unfolding step using m first by simp
  qed
qed

lemma forEach_lengths:
  assumes "distinct (map snd (mappings (collections w this)))"
      and "\<forall>len \<in> set (memberLengths this w). len = n"
  shows "\<forall>len \<in> set (memberLengths this
            (Map_forEach (mappings (collections w this)) (callMember call) w)).
           len = lengthAfter call n"
proof -
  let ?es = "mappings (collections w this)"
  let ?w' = "Map_forEach ?es (callMember call) w"
  have "length (indexedValues (heap ?w' r)) = lengthAfter call n" if "r \<in> snd ` set ?es" for r
  proof -
    have "length (indexedValues (heap w r)) = n"
      using assms(2) that by (auto simp: memberLengths_def)
    moreover have "heap ?w' r = applyCall call (heap w r)"
      using assms(1) that by (rule forEach_heap_member)
    ultimately show ?thesis by (simp add: length_applyCall)
  qed
  then have "length (indexedValues (heap ?w' r)) = lengthAfter call n"
    if "(name, r) \<in> set ?es" for name r
    using that by (metis image_eqI snd_conv)
  then show ?thesis
    by (auto simp: memberLengths_def forEach_frame)
qed

lemma forEach_members:
  assumes "distinct (map snd (mappings (collections w this)))"
  shows "\<forall>(name, m) \<in> set (mappings (collections w this)).
           heap (Map_forEach (mappings (collections w this)) (callMember call) w) m =
           applyCall call (heap w m)"
proof -
  have "heap (Map_forEach (mappings (collections w this)) (callMember call) w) m =
           applyCall call (heap w m)" if "(name, m) \<in> set (mappings (collections w this))"
    for name m
  proof -
    have "m \<in> snd ` set (mappings (collections w this))"
      using that by (metis image_eqI snd_conv)
    with assms show ?thesis by (rule forEach_heap_member)
  qed
  then show ?thesis by auto
qed

lemma initEvery_members:
  "\<forall>(name, m) \<in> set (mappings (collections w this)).
     heap (initEvery this k w) m = IndexMap_init k (heap w m)"
proof -
  have "heap (initEvery this k w) m = IndexMap_init k (heap w m)"
    if "(name, m) \<in> set (mappings (collections w this))" for name m
  proof -
    have "m \<in> snd ` set (mappings (collections w this))"
      using that by (metis image_eqI snd_conv)
    then show ?thesis unfolding initEvery_def by (rule forEach_heap_init)
  qed
  then show ?thesis by auto
qed

lemma initEvery_lengths:
  "\<forall>len \<in> set (memberLengths this (initEvery this k w)). len = k"
proof -
  have c: "collections (initEvery this k w) = collections w"
    by (simp add: initEvery_def forEach_frame)
  have "length (indexedValues (heap (initEvery this k w) m)) = k"
    if "(name, m) \<in> set (mappings (collections w this))" for name m
  proof -
    have "heap (initEvery this k w) m = IndexMap_init k (heap w m)"
      using initEvery_members [of w this k] that by auto
    then show ?thesis by (simp add: length_IndexMap_init)
  qed
  then show ?thesis by (auto simp: memberLengths_def c)
qed

text \<open>
  C1, as amended. Let the maps registered in a collection all have value sequences of
  length \<open>n\<close>. After \<^const>\<open>initEvery\<close> every registered map has a value sequence of the
  length given to the call. After \<^const>\<open>insertToEvery\<close> or \<^const>\<open>removeFromEvery\<close> every
  registered map has a value sequence of one and the same length again
  (\<^const>\<open>lengthAfter\<close> of the call and \<open>n\<close>), provided that the registered maps are pairwise
  distinct objects; they then hold the result of the operation applied once. Each of the
  three calls makes the same member call for every registered name, in registration order.
  Without the distinctness the lengths after an insertion or a removal can differ: a map
  registered under two names receives the call twice.
\<close>

theorem C1_fan_out_equal_lengths:
  assumes "\<forall>len \<in> set (memberLengths this w). len = n"
  shows "(distinct (map snd (mappings (collections w this))) \<longrightarrow>
            (\<forall>len \<in> set (memberLengths this (insertToEvery this i B w)).
               len = lengthAfter (InsertCall i B) n))
    \<and> (distinct (map snd (mappings (collections w this))) \<longrightarrow>
            (\<forall>len \<in> set (memberLengths this (removeFromEvery this R w)).
               len = lengthAfter (RemoveCall R) n))
    \<and> (\<forall>len \<in> set (memberLengths this (initEvery this k w)). len = k)
    \<and> (distinct (map snd (mappings (collections w this))) \<longrightarrow>
            (\<forall>(name, m) \<in> set (mappings (collections w this)).
               heap (insertToEvery this i B w) m = IndexMap_insert i B (heap w m)
             \<and> heap (removeFromEvery this R w) m = IndexMap_remove R (heap w m)))
    \<and> (\<forall>(name, m) \<in> set (mappings (collections w this)).
            heap (initEvery this k w) m = IndexMap_init k (heap w m))
    \<and> memberCalls (insertToEvery this i B w) =
         memberCalls w @ map (\<lambda>(name, m). (m, InsertCall i B)) (mappings (collections w this))
    \<and> memberCalls (removeFromEvery this R w) =
         memberCalls w @ map (\<lambda>(name, m). (m, RemoveCall R)) (mappings (collections w this))
    \<and> memberCalls (initEvery this k w) =
         memberCalls w @ map (\<lambda>(name, m). (m, InitCall k)) (mappings (collections w this))"
proof -
  have 1: "\<forall>len \<in> set (memberLengths this (insertToEvery this i B w)).
            len = lengthAfter (InsertCall i B) n"
    if "distinct (map snd (mappings (collections w this)))"
    unfolding insertToEvery_def using that assms by (rule forEach_lengths)
  have 2: "\<forall>len \<in> set (memberLengths this (removeFromEvery this R w)).
            len = lengthAfter (RemoveCall R) n"
    if "distinct (map snd (mappings (collections w this)))"
    unfolding removeFromEvery_def using that assms by (rule forEach_lengths)
  have 3: "\<forall>len \<in> set (memberLengths this (initEvery this k w)). len = k"
    by (rule initEvery_lengths)
  have 4: "\<forall>(name, m) \<in> set (mappings (collections w this)).
            heap (insertToEvery this i B w) m = IndexMap_insert i B (heap w m)
          \<and> heap (removeFromEvery this R w) m = IndexMap_remove R (heap w m)"
    if d: "distinct (map snd (mappings (collections w this)))"
    using forEach_members [OF d, of "InsertCall i B"] forEach_members [OF d, of "RemoveCall R"]
    unfolding insertToEvery_def removeFromEvery_def
    by fastforce
  have 5: "\<forall>(name, m) \<in> set (mappings (collections w this)).
            heap (initEvery this k w) m = IndexMap_init k (heap w m)"
    by (rule initEvery_members)
  have 6: "memberCalls (insertToEvery this i B w) =
         memberCalls w @ map (\<lambda>(name, m). (m, InsertCall i B)) (mappings (collections w this))"
    unfolding insertToEvery_def by (rule forEach_calls)
  have 7: "memberCalls (removeFromEvery this R w) =
         memberCalls w @ map (\<lambda>(name, m). (m, RemoveCall R)) (mappings (collections w this))"
    unfolding removeFromEvery_def by (rule forEach_calls)
  have 8: "memberCalls (initEvery this k w) =
         memberCalls w @ map (\<lambda>(name, m). (m, InitCall k)) (mappings (collections w this))"
    unfolding initEvery_def by (rule forEach_calls)
  from 1 2 3 4 5 6 7 8 show ?thesis by (intro conjI impI)
qed

lemmas runtime_eval =
  memberLengths_def insertToEvery_def removeFromEvery_def initEvery_def register_def
  unregister_def freshRuntime_def Map_forEach_def callMember_def Map_has_def Map_get_def
  Map_set_def Map_delete_def setMappings_def IndexMap_init_def IndexMap_insert_def
  IndexMap_remove_def asValuesMapping_def getListWithInsertedItems_def
  getListWithRemovedItems_def arrayFilter_def slice_def firstInsertedIndex_def
  mapWithIndex_def List.member_iff

theorem C1_fan_out_equal_lengths_witness:
  "distinct (map snd (mappings (collections twoMaps 0)))
   \<and> memberLengths 0 twoMaps = [3, 3]
   \<and> memberLengths 0 (insertToEvery 0 1 [1, 2] twoMaps) = [5, 5]
   \<and> memberLengths 0 (removeFromEvery 0 [0, 2] twoMaps) = [1, 1]
   \<and> memberLengths 0 (initEvery 0 7 twoMaps) = [7, 7]
   \<and> memberCalls (insertToEvery 0 1 [1, 2] twoMaps) =
       memberCalls twoMaps @ [(0, InsertCall 1 [1, 2]), (1, InsertCall 1 [1, 2])]
   \<and> memberLengths 0 sharedMap = [3, 3, 3]
   \<and> memberLengths 0 (initEvery 0 7 sharedMap) = [7, 7, 7]"
proof -
  have d: "distinct (map snd (mappings (collections twoMaps 0)))"
    by (simp add: twoMaps_def runtime_eval)
  have l: "memberLengths 0 twoMaps = [3, 3]"
    by (simp add: twoMaps_def runtime_eval)
  then have e: "\<forall>len \<in> set (memberLengths 0 twoMaps). len = 3"
    by simp
  have ms: "mappings (collections twoMaps 0) = [(''heights'', 0), (''widths'', 1)]"
    by (simp add: twoMaps_def runtime_eval)
  have two: "length (memberLengths 0 v) = 2" if "collections v = collections twoMaps"
    for v :: "int runtime"
    using that ms by (simp add: memberLengths_def)
  have pair: "xs = [a, a]" if "length xs = 2" and "\<forall>x \<in> set xs. x = a"
    for xs :: "nat list" and a
    using that by (cases xs; cases "tl xs") auto
  note c = C1_fan_out_equal_lengths [OF e, of 1 "[1, 2]" "[0, 2]" 7]
  have f: "collections (insertToEvery 0 1 [1, 2] twoMaps) = collections twoMaps"
      "collections (removeFromEvery 0 [0, 2] twoMaps) = collections twoMaps"
      "collections (initEvery 0 7 twoMaps) = collections twoMaps"
    by (simp_all add: insertToEvery_def removeFromEvery_def initEvery_def forEach_frame)
  have r: "card ({0, 2} \<inter> {..<3::nat}) = 2"
    by (simp add: Int_insert_left)
  have i: "memberLengths 0 (insertToEvery 0 1 [1, 2] twoMaps) = [5, 5]"
    using pair [OF two [OF f(1)], of 5] c d by simp
  have j: "memberLengths 0 (removeFromEvery 0 [0, 2] twoMaps) = [1, 1]"
    using pair [OF two [OF f(2)], of 1] c d r by simp
  have k: "memberLengths 0 (initEvery 0 7 twoMaps) = [7, 7]"
    using pair [OF two [OF f(3)], of 7] c by simp
  have t: "memberCalls (insertToEvery 0 1 [1, 2] twoMaps) =
       memberCalls twoMaps @ [(0, InsertCall 1 [1, 2]), (1, InsertCall 1 [1, 2])]"
    using c ms by simp
  have sl: "memberLengths 0 sharedMap = [3, 3, 3]"
    by code_simp
  then have se: "\<forall>len \<in> set (memberLengths 0 sharedMap). len = 3"
    by simp
  have "length (memberLengths 0 sharedMap) = 3"
    using sl by simp
  then have three: "length (memberLengths 0 (initEvery 0 7 sharedMap)) = 3"
    by (simp add: memberLengths_def initEvery_def forEach_frame)
  have triple: "xs = [a, a, a]" if "length xs = 3" and "\<forall>x \<in> set xs. x = a"
    for xs :: "nat list" and a
    using that by (cases xs; cases "tl xs"; cases "tl (tl xs)") auto
  have si: "memberLengths 0 (initEvery 0 7 sharedMap) = [7, 7, 7]"
    using triple [OF three, of 7] C1_fan_out_equal_lengths [OF se, of 0 "[]" "[]" 7] by simp
  from d l i j k t sl si show ?thesis by (intro conjI)
qed

theorem C1_shared_map_counterexample:
  "memberLengths 0 sharedMap = [3, 3, 3]
   \<and> memberLengths 0 (insertToEvery 0 2 [2] sharedMap) = [5, 5, 4]
   \<and> memberLengths 0 (removeFromEvery 0 [0] sharedMap) = [1, 1, 2]"
  by code_simp

lemma isRegistered_register:
  "isRegistered (register this name m w) c n = (isRegistered w c n \<or> (c = this \<and> n = name))"
  by (auto simp: isRegistered_def register_def setMappings_def Map_has_def Map_set_def update_conv')

lemma isRegistered_unregister:
  "isRegistered (unregister this name w) c n = (isRegistered w c n \<and> \<not> (c = this \<and> n = name))"
  by (auto simp: isRegistered_def unregister_def setMappings_def Map_has_def Map_get_def
      Map_delete_def delete_conv' split: option.splits)

lemma counter_register:
  "registeredMaps (register this name m w) =
     (if isRegistered w this name then registeredMaps w else registeredMaps w + 1)"
  by (simp add: isRegistered_def register_def setMappings_def)

lemma counter_unregister:
  "registeredMaps (unregister this name w) =
     (if isRegistered w this name then registeredMaps w - 1 else registeredMaps w)"
  by (auto simp: isRegistered_def unregister_def setMappings_def Map_has_def Map_get_def
      split: option.splits)

lemma register_present: "isRegistered w this name \<Longrightarrow> register this name m w = w"
  by (simp add: isRegistered_def register_def)

lemma unregister_absent: "\<not> isRegistered w this name \<Longrightarrow> unregister this name w = w"
  by (auto simp: isRegistered_def unregister_def Map_has_def Map_get_def split: option.splits)

lemma register_stores:
  "\<not> isRegistered w this name \<Longrightarrow>
     Map_get (mappings (collections (register this name m w) this)) name = Some m"
  by (simp add: isRegistered_def register_def setMappings_def Map_get_def Map_set_def update_conv')

lemma registerAll_counter:
  "distinct (map (\<lambda>(c, n, m). (c, n)) rs) \<Longrightarrow>
   (\<forall>(c, n, m) \<in> set rs. \<not> isRegistered w c n) \<Longrightarrow>
     registeredMaps (registerAll rs w) = registeredMaps w + int (length rs)
     \<and> (\<forall>c n. isRegistered (registerAll rs w) c n =
                (isRegistered w c n \<or> (c, n) \<in> (\<lambda>(c, n, m). (c, n)) ` set rs))"
proof (induction rs arbitrary: w)
  case Nil
  then show ?case by (simp add: registerAll_def)
next
  case (Cons x rs)
  obtain c n m where x: "x = (c, n, m)" by (cases x)
  let ?w = "register c n m w"
  have step: "registerAll (x # rs) w = registerAll rs ?w"
    by (simp add: registerAll_def x)
  have fresh: "\<not> isRegistered w c n" using Cons.prems(2) x by simp
  have d: "distinct (map (\<lambda>(c, n, m). (c, n)) rs)" using Cons.prems(1) by simp
  have notin: "(c, n) \<notin> (\<lambda>(c, n, m). (c, n)) ` set rs" using Cons.prems(1) x by simp
  have f: "\<forall>(c', n', m') \<in> set rs. \<not> isRegistered ?w c' n'"
    using Cons.prems(2) notin by (fastforce simp: isRegistered_register image_iff)
  from Cons.IH [OF d f] show ?case
    unfolding step using fresh x by (auto simp: counter_register isRegistered_register)
qed

lemma unregisterAll_counter:
  "distinct us \<Longrightarrow> (\<forall>(c, n) \<in> set us. isRegistered w c n) \<Longrightarrow>
     registeredMaps (unregisterAll us w) = registeredMaps w - int (length us)"
proof (induction us arbitrary: w)
  case Nil
  then show ?case by (simp add: unregisterAll_def)
next
  case (Cons x us)
  obtain c n where x: "x = (c, n)" by (cases x)
  let ?w = "unregister c n w"
  have step: "unregisterAll (x # us) w = unregisterAll us ?w"
    by (simp add: unregisterAll_def x)
  have reg: "isRegistered w c n" using Cons.prems(2) x by simp
  have d: "distinct us" using Cons.prems(1) by simp
  have f: "\<forall>(c', n') \<in> set us. isRegistered ?w c' n'"
    using Cons.prems x by (auto simp: isRegistered_unregister)
  from Cons.IH [OF d f] show ?case
    unfolding step using reg by (simp add: counter_unregister)
qed

lemma unregisterAll_registered:
  "isRegistered (unregisterAll us w) c n = (isRegistered w c n \<and> (c, n) \<notin> set us)"
proof (induction us arbitrary: w)
  case Nil
  then show ?case by (simp add: unregisterAll_def)
next
  case (Cons x us)
  obtain c' n' where x: "x = (c', n')" by (cases x)
  have step: "unregisterAll (x # us) w = unregisterAll us (unregister c' n' w)"
    by (simp add: unregisterAll_def x)
  show ?case unfolding step Cons.IH by (auto simp: isRegistered_unregister x)
qed

text \<open>
  C8. From any starting value of the counter: registering maps under fresh names (names
  that differ from each other within a collection and are not registered yet), in any
  number of collections, and then unregistering all of these names, each once and in any
  order, leaves the counter at its starting value, and the names registered are those
  registered at the start. \<^const>\<open>register\<close> adds one to the counter exactly when the name
  is not registered yet in the collection, and then it stores the map under the name, so
  that the name is registered afterwards; for a registered name it changes nothing.
  \<^const>\<open>unregister\<close> takes one off the counter exactly when the name is registered, and
  then it removes the name, so that the name is not registered afterwards and a second
  \<^const>\<open>unregister\<close> of it leaves the counter alone; for a name that is not registered it
  changes nothing. Neither touches another name.
\<close>

theorem C8_registered_maps_counter:
  assumes "distinct (map (\<lambda>(c, n, m). (c, n)) rs)"
      and "\<forall>(c, n, m) \<in> set rs. \<not> isRegistered (w :: 'a runtime) c n"
      and "distinct us"
      and "set us = (\<lambda>(c, n, m). (c, n)) ` set rs"
  shows "getRegisteredMapsCounter (unregisterAll us (registerAll rs w)) = getRegisteredMapsCounter w
    \<and> getRegisteredMapsCounter (registerAll rs w) = getRegisteredMapsCounter w + int (length rs)
    \<and> (\<forall>c n. isRegistered (registerAll rs w) c n =
                (isRegistered w c n \<or> (c, n) \<in> set us))
    \<and> (\<forall>c n. isRegistered (unregisterAll us (registerAll rs w)) c n = isRegistered w c n)
    \<and> (\<forall>this name m v. getRegisteredMapsCounter (register this name m (v :: 'a runtime)) =
          (if isRegistered v this name then getRegisteredMapsCounter v
           else getRegisteredMapsCounter v + 1))
    \<and> (\<forall>this name m v. isRegistered (v :: 'a runtime) this name \<longrightarrow> register this name m v = v)
    \<and> (\<forall>this name m v. \<not> isRegistered (v :: 'a runtime) this name \<longrightarrow>
          Map_get (mappings (collections (register this name m v) this)) name = Some m)
    \<and> (\<forall>this name m v c n. isRegistered (register this name m (v :: 'a runtime)) c n =
          (isRegistered v c n \<or> (c = this \<and> n = name)))
    \<and> (\<forall>this name v. getRegisteredMapsCounter (unregister this name (v :: 'a runtime)) =
          (if isRegistered v this name then getRegisteredMapsCounter v - 1
           else getRegisteredMapsCounter v))
    \<and> (\<forall>this name v. \<not> isRegistered (v :: 'a runtime) this name \<longrightarrow> unregister this name v = v)
    \<and> (\<forall>this name v c n. isRegistered (unregister this name (v :: 'a runtime)) c n =
          (isRegistered v c n \<and> \<not> (c = this \<and> n = name)))
    \<and> (\<forall>this name v. getRegisteredMapsCounter
            (unregister this name (unregister this name (v :: 'a runtime))) =
          getRegisteredMapsCounter (unregister this name v))"
proof -
  let ?w = "registerAll rs w"
  have r: "registeredMaps ?w = registeredMaps w + int (length rs)"
    and k: "\<forall>c n. isRegistered ?w c n =
              (isRegistered w c n \<or> (c, n) \<in> (\<lambda>(c, n, m). (c, n)) ` set rs)"
    using registerAll_counter [OF assms(1,2)] by blast+
  have k': "\<forall>c n. isRegistered ?w c n = (isRegistered w c n \<or> (c, n) \<in> set us)"
    using k assms(4) by simp
  have "isRegistered ?w c n" if "(c, n) \<in> set us" for c n
    using k' that by simp
  then have "\<forall>(c, n) \<in> set us. isRegistered ?w c n"
    by auto
  with assms(3) have u: "registeredMaps (unregisterAll us ?w) = registeredMaps ?w - int (length us)"
    by (rule unregisterAll_counter)
  have "length us = card (set us)" using assms(3) by (simp add: distinct_card)
  also have "\<dots> = card (set (map (\<lambda>(c, n, m). (c, n)) rs))" using assms(4) by simp
  also have "\<dots> = length rs" using assms(1) by (simp only: distinct_card length_map)
  finally have len: "length us = length rs" .
  have fresh: "\<not> isRegistered w c n" if "(c, n) \<in> set us" for c n
  proof -
    from that assms(4) obtain x where "x \<in> set rs" and "(c, n) = (\<lambda>(c, n, m). (c, n)) x"
      by auto
    with assms(2) show ?thesis by (cases x) auto
  qed
  have restored: "\<forall>c n. isRegistered (unregisterAll us ?w) c n = isRegistered w c n"
    using k' fresh by (auto simp: unregisterAll_registered)
  have twice: "getRegisteredMapsCounter (unregister this name (unregister this name v)) =
          getRegisteredMapsCounter (unregister this name v)" for this name and v :: "'a runtime"
    by (simp add: getRegisteredMapsCounter_def counter_unregister isRegistered_unregister)
  have 1: "getRegisteredMapsCounter (unregisterAll us ?w) = getRegisteredMapsCounter w"
    using r u len by (simp add: getRegisteredMapsCounter_def)
  have 2: "getRegisteredMapsCounter ?w = getRegisteredMapsCounter w + int (length rs)"
    using r by (simp add: getRegisteredMapsCounter_def)
  have 5: "\<forall>this name m v. getRegisteredMapsCounter (register this name m (v :: 'a runtime)) =
          (if isRegistered v this name then getRegisteredMapsCounter v
           else getRegisteredMapsCounter v + 1)"
    by (simp add: getRegisteredMapsCounter_def counter_register)
  have 6: "\<forall>this name m v. isRegistered (v :: 'a runtime) this name \<longrightarrow> register this name m v = v"
    by (simp add: register_present)
  have 7: "\<forall>this name m v. \<not> isRegistered (v :: 'a runtime) this name \<longrightarrow>
          Map_get (mappings (collections (register this name m v) this)) name = Some m"
    by (simp add: register_stores)
  have 8: "\<forall>this name m v c n. isRegistered (register this name m (v :: 'a runtime)) c n =
          (isRegistered v c n \<or> (c = this \<and> n = name))"
    by (simp add: isRegistered_register)
  have 9: "\<forall>this name v. getRegisteredMapsCounter (unregister this name (v :: 'a runtime)) =
          (if isRegistered v this name then getRegisteredMapsCounter v - 1
           else getRegisteredMapsCounter v)"
    by (simp add: getRegisteredMapsCounter_def counter_unregister)
  have 10: "\<forall>this name v. \<not> isRegistered (v :: 'a runtime) this name \<longrightarrow> unregister this name v = v"
    by (simp add: unregister_absent)
  have 11: "\<forall>this name v c n. isRegistered (unregister this name (v :: 'a runtime)) c n =
          (isRegistered v c n \<and> \<not> (c = this \<and> n = name))"
    by (simp add: isRegistered_unregister)
  have 12: "\<forall>this name v. getRegisteredMapsCounter
            (unregister this name (unregister this name (v :: 'a runtime))) =
          getRegisteredMapsCounter (unregister this name v)"
    using twice by blast
  from 1 2 k' restored 5 6 7 8 9 10 11 12 show ?thesis by (intro conjI)
qed

theorem C8_registered_maps_counter_witness:
  "getRegisteredMapsCounter
     (unregisterAll [(1, ''a''), (0, ''a''), (0, ''b'')]
       (registerAll [(0, ''a'', 0), (0, ''b'', 1), (1, ''a'', 2)]
         ((freshRuntime (InitValue (0::int)))\<lparr>registeredMaps := 41\<rparr>))) = 41
   \<and> getRegisteredMapsCounter
       (registerAll [(0, ''a'', 0), (0, ''b'', 1), (1, ''a'', 2)]
         ((freshRuntime (InitValue (0::int)))\<lparr>registeredMaps := 41\<rparr>)) = 44
   \<and> isRegistered
       (registerAll [(0, ''a'', 0), (0, ''b'', 1), (1, ''a'', 2)]
         ((freshRuntime (InitValue (0::int)))\<lparr>registeredMaps := 41\<rparr>)) 1 ''a''
   \<and> \<not> isRegistered
       (unregisterAll [(1, ''a''), (0, ''a''), (0, ''b'')]
         (registerAll [(0, ''a'', 0), (0, ''b'', 1), (1, ''a'', 2)]
           ((freshRuntime (InitValue (0::int)))\<lparr>registeredMaps := 41\<rparr>))) 1 ''a''
   \<and> map getRegisteredMapsCounter
       [freshRuntime (InitValue (0::int)),
        register 0 ''a'' 0 (freshRuntime (InitValue 0)),
        unregister 0 ''a'' (register 0 ''a'' 0 (freshRuntime (InitValue 0))),
        unregister 0 ''a'' (unregister 0 ''a'' (register 0 ''a'' 0 (freshRuntime (InitValue 0))))]
       = [0, 1, 0, 0]"
proof -
  let ?w = "(freshRuntime (InitValue (0::int)))\<lparr>registeredMaps := 41\<rparr>"
  let ?rs = "[(0::nat, ''a'', 0::nat), (0, ''b'', 1), (1, ''a'', 2)]"
  let ?us = "[(1::nat, ''a''), (0, ''a''), (0, ''b'')]"
  let ?f = "freshRuntime (InitValue (0::int))"
  have 1: "distinct (map (\<lambda>(c, n, m). (c, n)) ?rs)" by simp
  have 2: "\<forall>(c, n, m) \<in> set ?rs. \<not> isRegistered ?w c n"
    by (simp add: isRegistered_def freshRuntime_def Map_has_def)
  have 3: "distinct ?us" by simp
  have 4: "set ?us = (\<lambda>(c, n, m). (c, n)) ` set ?rs" by auto
  have 5: "getRegisteredMapsCounter ?w = 41"
    by (simp add: getRegisteredMapsCounter_def freshRuntime_def)
  have 6: "\<not> isRegistered ?w 1 ''a''" "\<not> isRegistered ?f 0 ''a''"
    by (simp_all add: isRegistered_def freshRuntime_def Map_has_def)
  have 7: "getRegisteredMapsCounter ?f = 0"
    by (simp add: getRegisteredMapsCounter_def freshRuntime_def)
  note c = C8_registered_maps_counter [OF 1 2 3 4]
  note c2 = c [THEN conjunct2]
  note c3 = c2 [THEN conjunct2]
  note c4 = c3 [THEN conjunct2]
  note c5 = c4 [THEN conjunct2]
  note c8 = c5 [THEN conjunct2, THEN conjunct2, THEN conjunct2]
  note c9 = c8 [THEN conjunct2]
  note c12 = c9 [THEN conjunct2, THEN conjunct2, THEN conjunct2]
  note a = c [THEN conjunct1]
  note b = c2 [THEN conjunct1]
  note k = c3 [THEN conjunct1]
  note restored = c4 [THEN conjunct1]
  note reg = c5 [THEN conjunct1]
  note regd = c8 [THEN conjunct1]
  note unreg = c9 [THEN conjunct1]
  note twice = c12
  have p1: "getRegisteredMapsCounter (unregisterAll ?us (registerAll ?rs ?w)) = 41"
    using a 5 by simp
  have p2: "getRegisteredMapsCounter (registerAll ?rs ?w) = 44"
    using b 5 by simp
  have p3: "isRegistered (registerAll ?rs ?w) 1 ''a''"
    using k by simp
  have p4: "\<not> isRegistered (unregisterAll ?us (registerAll ?rs ?w)) 1 ''a''"
    using restored 6 by simp
  have q1: "getRegisteredMapsCounter (register 0 ''a'' 0 ?f) = 1"
    using reg 6 7 by simp
  have q2: "getRegisteredMapsCounter (unregister 0 ''a'' (register 0 ''a'' 0 ?f)) = 0"
    using unreg regd q1 by simp
  have q3: "getRegisteredMapsCounter
      (unregister 0 ''a'' (unregister 0 ''a'' (register 0 ''a'' 0 ?f))) = 0"
    using twice q2 by simp
  from p1 p2 p3 p4 7 q1 q2 q3 show ?thesis by simp
qed

section \<open>Selection geometry: proofs\<close>

lemma isEqual_iff: "isEqual a b = (a = b)"
  by (cases a, cases b) (simp add: isEqual_def)

lemma expand_topLeft:
  "getTopLeftCorner (expand c r) =
     \<lparr>row = min (row (getTopLeftCorner r)) (row c),
      col = min (col (getTopLeftCorner r)) (col c)\<rparr>"
  by (simp add: expand_def Let_def getTopLeftCorner_def getBottomRightCorner_def) linarith

lemma expand_bottomRight:
  "getBottomRightCorner (expand c r) =
     \<lparr>row = max (row (getBottomRightCorner r)) (row c),
      col = max (col (getBottomRightCorner r)) (col c)\<rparr>"
  by (simp add: expand_def Let_def getTopLeftCorner_def getBottomRightCorner_def) linarith

lemma add_nonempty: "cellRange s = Some r \<Longrightarrow> cellRange (add c s) = Some (expand c r)"
  by (simp add: add_def isEmpty_def)

lemma add_empty: "cellRange s = None \<Longrightarrow> cellRange (add c s) = Some (newCellRange c)"
  by (simp add: add_def isEmpty_def)

lemma fold_add_corners:
  "cellRange s = Some r \<Longrightarrow>
     \<exists>r'. cellRange (fold add cs s) = Some r'
       \<and> row (getTopLeftCorner r') = fold min (map row cs) (row (getTopLeftCorner r))
       \<and> col (getTopLeftCorner r') = fold min (map col cs) (col (getTopLeftCorner r))
       \<and> row (getBottomRightCorner r') = fold max (map row cs) (row (getBottomRightCorner r))
       \<and> col (getBottomRightCorner r') = fold max (map col cs) (col (getBottomRightCorner r))"
proof (induction cs arbitrary: s r)
  case Nil
  then show ?case by simp
next
  case (Cons c cs)
  have "cellRange (add c s) = Some (expand c r)"
    using Cons.prems by (rule add_nonempty)
  from Cons.IH [OF this] show ?case
    by (simp add: expand_topLeft expand_bottomRight min.commute max.commute)
qed

lemma fold_add_from_empty:
  assumes "cellRange s = None" and "cs \<noteq> []"
  shows "getCorners (fold add cs s) =
     Inr [Min (row ` set cs), Min (col ` set cs), Max (row ` set cs), Max (col ` set cs)]"
proof -
  obtain c cs' where cs: "cs = c # cs'" using assms(2) by (cases cs) auto
  have start: "cellRange (add c s) = Some (newCellRange c)"
    using assms(1) by (rule add_empty)
  obtain r' where r': "cellRange (fold add cs' (add c s)) = Some r'"
    and a: "row (getTopLeftCorner r') =
              fold min (map row cs') (row (getTopLeftCorner (newCellRange c)))"
    and b: "col (getTopLeftCorner r') =
              fold min (map col cs') (col (getTopLeftCorner (newCellRange c)))"
    and c: "row (getBottomRightCorner r') =
              fold max (map row cs') (row (getBottomRightCorner (newCellRange c)))"
    and d: "col (getBottomRightCorner r') =
              fold max (map col cs') (col (getBottomRightCorner (newCellRange c)))"
    using fold_add_corners [OF start, of cs'] by blast
  have single: "getTopLeftCorner (newCellRange c) = c" "getBottomRightCorner (newCellRange c) = c"
    by (simp_all add: getTopLeftCorner_def getBottomRightCorner_def newCellRange_def)
  have a': "row (getTopLeftCorner r') = Min (row ` set cs)"
    unfolding a single cs using Min.set_eq_fold [of "row c" "map row cs'", symmetric] by simp
  have b': "col (getTopLeftCorner r') = Min (col ` set cs)"
    unfolding b single cs using Min.set_eq_fold [of "col c" "map col cs'", symmetric] by simp
  have c': "row (getBottomRightCorner r') = Max (row ` set cs)"
    unfolding c single cs using Max.set_eq_fold [of "row c" "map row cs'", symmetric] by simp
  have d': "col (getBottomRightCorner r') = Max (col ` set cs)"
    unfolding d single cs using Max.set_eq_fold [of "col c" "map col cs'", symmetric] by simp
  have "cellRange (fold add cs s) = Some r'" using r' by (simp add: cs)
  then show ?thesis by (simp add: getCorners_def Let_def a' b' c' d')
qed

lemma getCorners_swap:
  "getCorners (s\<lparr>cellRange := Some \<lparr>fromCoords = a, toCoords = b\<rparr>\<rparr>) =
   getCorners (s\<lparr>cellRange := Some \<lparr>fromCoords = b, toCoords = a\<rparr>\<rparr>)"
  by (simp add: getCorners_def Let_def getTopLeftCorner_def getBottomRightCorner_def
      min.commute max.commute)

text \<open>
  C4. When the coordinates of a non-empty list are added one at a time by \<^const>\<open>add\<close> to
  an empty selection, \<^const>\<open>getCorners\<close> returns the minimum row, the minimum column, the
  maximum row and the maximum column of the coordinates added; the result is the same for
  every order (and multiplicity) in which the same coordinates are added; and the corners
  of a range do not change when its \<^verbatim>\<open>from\<close> and \<^verbatim>\<open>to\<close> are exchanged.
\<close>

theorem C4_add_bounding_box:
  assumes "cellRange s = None" and "cs \<noteq> []"
  shows "getCorners (fold add cs s) =
           Inr [Min (row ` set cs), Min (col ` set cs), Max (row ` set cs), Max (col ` set cs)]
       \<and> (\<forall>cs'. set cs' = set cs \<longrightarrow> getCorners (fold add cs' s) = getCorners (fold add cs s))
       \<and> (\<forall>a b. getCorners (s\<lparr>cellRange := Some \<lparr>fromCoords = a, toCoords = b\<rparr>\<rparr>) =
                 getCorners (s\<lparr>cellRange := Some \<lparr>fromCoords = b, toCoords = a\<rparr>\<rparr>))"
proof (intro conjI allI impI)
  show "getCorners (fold add cs s) =
           Inr [Min (row ` set cs), Min (col ` set cs), Max (row ` set cs), Max (col ` set cs)]"
    using assms by (rule fold_add_from_empty)
next
  fix cs' assume same: "set cs' = set cs"
  then have "cs' \<noteq> []" using assms(2) by auto
  with assms(1) have "getCorners (fold add cs' s) =
           Inr [Min (row ` set cs'), Min (col ` set cs'), Max (row ` set cs'), Max (col ` set cs')]"
    by (rule fold_add_from_empty)
  then show "getCorners (fold add cs' s) = getCorners (fold add cs s)"
    using fold_add_from_empty [OF assms] same by simp
next
  fix a b
  show "getCorners (s\<lparr>cellRange := Some \<lparr>fromCoords = a, toCoords = b\<rparr>\<rparr>) =
        getCorners (s\<lparr>cellRange := Some \<lparr>fromCoords = b, toCoords = a\<rparr>\<rparr>)"
    by (rule getCorners_swap)
qed

theorem C4_add_bounding_box_witness:
  "cellRange (newSelection exampleSettings None) = None
   \<and> [cellAt 2 2, cellAt 5 1] \<noteq> []
   \<and> getCorners (fold add [cellAt 2 2, cellAt 5 1] (newSelection exampleSettings None))
       = Inr [2, 1, 5, 2]
   \<and> getCorners (fold add [cellAt 5 1, cellAt 2 2] (newSelection exampleSettings None))
       = Inr [2, 1, 5, 2]"
proof -
  let ?s = "newSelection exampleSettings None"
  let ?cs = "[cellAt 2 2, cellAt 5 1]"
  have e: "cellRange ?s = None" by (simp add: newSelection_def)
  have n: "?cs \<noteq> []" by simp
  from C4_add_bounding_box [OF e n]
  have box: "getCorners (fold add ?cs ?s) =
      Inr [Min (row ` set ?cs), Min (col ` set ?cs), Max (row ` set ?cs), Max (col ` set ?cs)]"
    and perm: "\<forall>cs'. set cs' = set ?cs \<longrightarrow> getCorners (fold add cs' ?s) = getCorners (fold add ?cs ?s)"
    by blast+
  have 1: "getCorners (fold add ?cs ?s) = Inr [2, 1, 5, 2]"
    using box by (simp add: cellAt_def)
  have "set [cellAt 5 1, cellAt 2 2] = set ?cs" by auto
  with perm have "getCorners (fold add [cellAt 5 1, cellAt 2 2] ?s) = getCorners (fold add ?cs ?s)"
    by blast
  with 1 have 2: "getCorners (fold add [cellAt 5 1, cellAt 2 2] ?s) = Inr [2, 1, 5, 2]"
    by simp
  from e n 1 2 show ?thesis by (intro conjI)
qed

text \<open>
  C7. On a selection with a range, \<^const>\<open>replace\<close> sets \<^verbatim>\<open>from\<close> to the new coordinates and
  returns true when the old coordinates equal \<^verbatim>\<open>from\<close>; otherwise it sets \<^verbatim>\<open>to\<close> and returns
  true when they equal \<^verbatim>\<open>to\<close>; otherwise it changes nothing and returns false. The witness is
  the scenario of the range from (1,1) to (3,3): replacing (1,1) by (9,9) succeeds, and
  replacing (1,1) again fails.
\<close>

theorem C7_replace:
  assumes "cellRange s = Some r"
  shows "replace oldCoords newCoords s =
     (if oldCoords = fromCoords r
      then (True, s\<lparr>cellRange := Some (r\<lparr>fromCoords := newCoords\<rparr>)\<rparr>)
      else if oldCoords = toCoords r
      then (True, s\<lparr>cellRange := Some (r\<lparr>toCoords := newCoords\<rparr>)\<rparr>)
      else (False, s))"
  using assms by (auto simp: replace_def isEqual_iff)

theorem C7_replace_witness:
  "replace (cellAt 1 1) (cellAt 9 9)
     (newSelection exampleSettings (Some (rangeOf (cellAt 1 1) (cellAt 3 3))))
     = (True, newSelection exampleSettings (Some (rangeOf (cellAt 9 9) (cellAt 3 3))))
   \<and> replace (cellAt 1 1) (cellAt 9 9)
     (newSelection exampleSettings (Some (rangeOf (cellAt 9 9) (cellAt 3 3))))
     = (False, newSelection exampleSettings (Some (rangeOf (cellAt 9 9) (cellAt 3 3))))"
proof -
  have 1: "cellRange (newSelection exampleSettings (Some (rangeOf (cellAt 1 1) (cellAt 3 3))))
      = Some (rangeOf (cellAt 1 1) (cellAt 3 3))"
    by (simp add: newSelection_def)
  have 2: "cellRange (newSelection exampleSettings (Some (rangeOf (cellAt 9 9) (cellAt 3 3))))
      = Some (rangeOf (cellAt 9 9) (cellAt 3 3))"
    by (simp add: newSelection_def)
  from C7_replace [OF 1, of "cellAt 1 1" "cellAt 9 9"] C7_replace [OF 2, of "cellAt 1 1" "cellAt 9 9"]
  show ?thesis by (simp add: newSelection_def rangeOf_def cellAt_def)
qed

section \<open>Selection render planning: proofs\<close>

lemma drawBorderEdges_shape:
  assumes "drawBorderEdges wot st corners = Inr d" and "d \<noteq> []"
  shows "\<exists>firstTd lastTd. d =
     [DSettings st, DCell firstTd, DCell lastTd,
      DFlag (highlightFirstRenderedRow (wtTable wot) corners = corners ! 0),
      DFlag (highlightLastRenderedColumn (wtTable wot) corners = corners ! 3),
      DFlag (highlightLastRenderedRow (wtTable wot) corners = corners ! 2),
      DFlag (highlightFirstRenderedColumn (wtTable wot) corners = corners ! 1)]"
  using assms unfolding drawBorderEdges_def Let_def
  by (auto split: if_splits sum.splits option.splits)

lemma drawBorderEdges_inverted:
  assumes "highlightFirstRenderedRow (wtTable wot) corners > highlightLastRenderedRow (wtTable wot) corners
         \<or> highlightFirstRenderedColumn (wtTable wot) corners > highlightLastRenderedColumn (wtTable wot) corners"
  shows "drawBorderEdges wot st corners = Inr []"
  using assms unfolding drawBorderEdges_def Let_def by auto

lemma drawBody_inverted:
  assumes "highlightFirstRenderedRow (wtTable wot) corners > highlightLastRenderedRow (wtTable wot) corners
         \<or> highlightFirstRenderedColumn (wtTable wot) corners > highlightLastRenderedColumn (wtTable wot) corners"
  shows "drawBody wot st corners = []"
  using assms unfolding drawBody_def Let_def by auto

lemma getSelectionHandle_result:
  "getSelectionHandle s i = (h, s') \<Longrightarrow>
     h = i \<and> borderEdgesDescriptor s' = borderEdgesDescriptor s \<and> cellRange s' = cellRange s
     \<and> settings s' = settings s"
  by (auto simp: getSelectionHandle_def getSelectionHandleIfExists_def split: if_splits)

lemma draw_nonempty:
  assumes "cellRange s = Some r"
  shows "draw wot s =
     (let corners = [row (getTopLeftCorner r), col (getTopLeftCorner r),
                     row (getBottomRightCorner r), col (getBottomRightCorner r)]
      in case drawBorderEdges wot (settings s) corners of
           Inl e \<Rightarrow> Inl e
         | Inr descriptor \<Rightarrow>
             Inr (snd (if hasSelectionHandle s
                       then getSelectionHandle (s\<lparr>borderEdgesDescriptor := descriptor\<rparr>)
                              (instanceId wot)
                       else (instanceId wot, s\<lparr>borderEdgesDescriptor := descriptor\<rparr>)),
                  drawColumnHighlight wot (settings s) corners
                  @ drawRowHighlight wot (settings s) corners
                  @ drawBody wot (settings s) corners
                  @ [OnBeforeDrawBorders corners (className (settings s))]
                  @ (if hasSelectionHandle s then [Appear (instanceId wot) corners] else [])))"
  using assms
  by (auto simp: draw_def isEmpty_def getCorners_def Let_def hasSelectionHandle_def
        dest: getSelectionHandle_result split: sum.splits prod.splits)

text \<open>
  C5. Whenever \<^const>\<open>draw\<close> leaves a border edges descriptor, the selection has corners
  (first row, first column, last row, last column) and the descriptor holds the settings,
  two cells and four flags: the top flag says whether
  the clipped first rendered row equals the first row of the selection, the right flag
  whether the clipped last rendered column equals its last column, the bottom flag whether
  the clipped last rendered row equals its last row, and the left flag whether the clipped
  first rendered column equals its first column.
\<close>

theorem C5_border_edge_flags:
  assumes "draw wot s = Inr (s', events)" and "getBorderEdgesDescriptor s' \<noteq> []"
  shows "\<exists>firstRow firstColumn lastRow lastColumn firstTd lastTd.
     getCorners s = Inr [firstRow, firstColumn, lastRow, lastColumn]
     \<and> getBorderEdgesDescriptor s' =
           [DSettings (settings s), DCell firstTd, DCell lastTd,
            DFlag (highlightFirstRenderedRow (wtTable wot)
                     [firstRow, firstColumn, lastRow, lastColumn] = firstRow),
            DFlag (highlightLastRenderedColumn (wtTable wot)
                     [firstRow, firstColumn, lastRow, lastColumn] = lastColumn),
            DFlag (highlightLastRenderedRow (wtTable wot)
                     [firstRow, firstColumn, lastRow, lastColumn] = lastRow),
            DFlag (highlightFirstRenderedColumn (wtTable wot)
                     [firstRow, firstColumn, lastRow, lastColumn] = firstColumn)]"
proof (cases "cellRange s")
  case None
  then have "borderEdgesDescriptor s' = []"
    using assms(1) by (auto simp: draw_def isEmpty_def Let_def)
  then show ?thesis using assms(2) by (simp add: getBorderEdgesDescriptor_def)
next
  case (Some r)
  let ?corners = "[row (getTopLeftCorner r), col (getTopLeftCorner r),
                   row (getBottomRightCorner r), col (getBottomRightCorner r)]"
  obtain d where d: "drawBorderEdges wot (settings s) ?corners = Inr d"
    using assms(1) draw_nonempty [OF Some, of wot]
    by (cases "drawBorderEdges wot (settings s) ?corners") (simp_all add: Let_def)
  have same: "borderEdgesDescriptor s' = d"
  proof (cases "getSelectionHandle (s\<lparr>borderEdgesDescriptor := d\<rparr>) (instanceId wot)")
    case (Pair h s2)
    then show ?thesis
      using assms(1) d draw_nonempty [OF Some, of wot] getSelectionHandle_result [OF Pair]
      by (auto simp: Let_def split: if_splits)
  qed
  then have "d \<noteq> []" using assms(2) by (simp add: getBorderEdgesDescriptor_def)
  with d obtain firstTd lastTd where "d =
     [DSettings (settings s), DCell firstTd, DCell lastTd,
      DFlag (highlightFirstRenderedRow (wtTable wot) ?corners = ?corners ! 0),
      DFlag (highlightLastRenderedColumn (wtTable wot) ?corners = ?corners ! 3),
      DFlag (highlightLastRenderedRow (wtTable wot) ?corners = ?corners ! 2),
      DFlag (highlightFirstRenderedColumn (wtTable wot) ?corners = ?corners ! 1)]"
    using drawBorderEdges_shape by blast
  then show ?thesis
    using Some same by (simp add: getBorderEdgesDescriptor_def getCorners_def Let_def)
qed

lemmas draw_eval =
  draw_def isEmpty_def getCorners_def getTopLeftCorner_def getBottomRightCorner_def
  hasSelectionHandle_def drawBorderEdges_def drawBody_def drawColumnHighlight_def
  drawRowHighlight_def getRelevantCell_def addClassAtCoords_def whenTruthy_def truthy_def
  highlightFirstRenderedRow_def highlightFirstRenderedColumn_def highlightLastRenderedRow_def
  highlightLastRenderedColumn_def renderingOffsetEast_def renderingOffsetSouth_def
  renderingOffsetNorth_def toNumber_def newSelection_def exampleWalkontable_def
  exampleTable_def exampleSettings_def rangeOf_def cellAt_def getBorderEdgesDescriptor_def

theorem C5_border_edge_flags_witness:
  "draw exampleWalkontable
     (newSelection exampleSettings (Some (rangeOf (cellAt 7 2) (cellAt 10 3)))) =
   Inr ((newSelection exampleSettings (Some (rangeOf (cellAt 7 2) (cellAt 10 3))))
          \<lparr>borderEdgesDescriptor :=
             [DSettings exampleSettings, DCell 86, DCell 99,
              DFlag True, DFlag True, DFlag False, DFlag True]\<rparr>,
        [AddCellClass 86 ''area'' False, AddCellClass 87 ''area'' False,
         AddCellClass 98 ''area'' False, AddCellClass 99 ''area'' False,
         OnBeforeDrawBorders [7, 2, 10, 3] (Some ''area'')])"
proof -
  let ?s = "newSelection exampleSettings (Some (rangeOf (cellAt 7 2) (cellAt 10 3)))"
  let ?d = "[DSettings exampleSettings, DCell 86, DCell 99,
             DFlag True, DFlag True, DFlag False, DFlag True]"
  let ?e = "[AddCellClass 86 ''area'' False, AddCellClass 87 ''area'' False,
             AddCellClass 98 ''area'' False, AddCellClass 99 ''area'' False,
             OnBeforeDrawBorders [7, 2, 10, 3] (Some ''area'')]"
  have run: "draw exampleWalkontable ?s = Inr (?s\<lparr>borderEdgesDescriptor := ?d\<rparr>, ?e)"
    by code_simp
  have some: "getBorderEdgesDescriptor (?s\<lparr>borderEdgesDescriptor := ?d\<rparr>) \<noteq> []"
    by (simp add: getBorderEdgesDescriptor_def)
  from C5_border_edge_flags [OF run some] run show ?thesis by blast
qed

text \<open>
  C6. For a selection that has corners (it is not empty) and whose clipped rows or clipped
  columns are inverted
  (first greater than last) in the rendered window, \<^const>\<open>draw\<close> returns without an error,
  leaves the empty border edges descriptor, and puts no selection class on a body cell:
  the third loop contributes no event, and the events of the call are those of the header
  and band highlighting, the hook before the borders, and the selection handle. The witness
  is the single cell (10,10) in a window of rendered rows 0 to 8.
\<close>

theorem C6_inverted_clip_draws_nothing:
  assumes "getCorners s = Inr corners"
      and "highlightFirstRenderedRow (wtTable wot) corners > highlightLastRenderedRow (wtTable wot) corners
         \<or> highlightFirstRenderedColumn (wtTable wot) corners > highlightLastRenderedColumn (wtTable wot) corners"
  shows "\<exists>s' events. draw wot s = Inr (s', events)
     \<and> getBorderEdgesDescriptor s' = []
     \<and> drawBody wot (settings s) corners = []
     \<and> events = drawColumnHighlight wot (settings s) corners
                @ drawRowHighlight wot (settings s) corners
                @ [OnBeforeDrawBorders corners (className (settings s))]
                @ (if hasSelectionHandle s then [Appear (instanceId wot) corners] else [])"
proof -
  obtain r where r: "cellRange s = Some r"
    and corners: "corners = [row (getTopLeftCorner r), col (getTopLeftCorner r),
                      row (getBottomRightCorner r), col (getBottomRightCorner r)]"
    using assms(1) by (cases "cellRange s") (auto simp: getCorners_def Let_def)
  have b: "drawBorderEdges wot (settings s) corners = Inr []"
    using assms(2) by (rule drawBorderEdges_inverted)
  have body: "drawBody wot (settings s) corners = []"
    using assms(2) by (rule drawBody_inverted)
  obtain h s2 where h: "getSelectionHandle (s\<lparr>borderEdgesDescriptor := []\<rparr>) (instanceId wot) = (h, s2)"
    by (cases "getSelectionHandle (s\<lparr>borderEdgesDescriptor := []\<rparr>) (instanceId wot)")
  have s2: "borderEdgesDescriptor s2 = []"
    using getSelectionHandle_result [OF h] by simp
  show ?thesis
    using draw_nonempty [OF r, of wot] b body h s2
    unfolding corners [symmetric]
    by (simp add: Let_def getBorderEdgesDescriptor_def)
qed

theorem C6_inverted_clip_draws_nothing_witness:
  "getCorners (newSelection exampleSettings (Some (rangeOf (cellAt 10 10) (cellAt 10 10))))
     = Inr [10, 10, 10, 10]
   \<and> highlightFirstRenderedRow (wtTable exampleWalkontable) [10, 10, 10, 10] = 10
   \<and> highlightLastRenderedRow (wtTable exampleWalkontable) [10, 10, 10, 10] = 8
   \<and> (\<exists>s' events.
        draw exampleWalkontable
          (newSelection exampleSettings (Some (rangeOf (cellAt 10 10) (cellAt 10 10))))
          = Inr (s', events)
        \<and> getBorderEdgesDescriptor s' = []
        \<and> events = [OnBeforeDrawBorders [10, 10, 10, 10] (Some ''area'')])"
proof -
  let ?s = "newSelection exampleSettings (Some (rangeOf (cellAt 10 10) (cellAt 10 10)))"
  have c: "getCorners ?s = Inr [10, 10, 10, 10]"
    by (simp add: getCorners_def newSelection_def getTopLeftCorner_def getBottomRightCorner_def
         rangeOf_def cellAt_def Let_def)
  have first: "highlightFirstRenderedRow (wtTable exampleWalkontable) [10, 10, 10, 10] = 10"
    by (simp add: draw_eval)
  have last: "highlightLastRenderedRow (wtTable exampleWalkontable) [10, 10, 10, 10] = 8"
    by (simp add: draw_eval)
  have inv: "highlightFirstRenderedRow (wtTable exampleWalkontable) [10, 10, 10, 10]
               > highlightLastRenderedRow (wtTable exampleWalkontable) [10, 10, 10, 10]
           \<or> highlightFirstRenderedColumn (wtTable exampleWalkontable) [10, 10, 10, 10]
               > highlightLastRenderedColumn (wtTable exampleWalkontable) [10, 10, 10, 10]"
    using first last by simp
  have hl: "drawColumnHighlight exampleWalkontable (settings ?s) [10, 10, 10, 10] = []"
      "drawRowHighlight exampleWalkontable (settings ?s) [10, 10, 10, 10] = []"
      "hasSelectionHandle ?s = False" "className (settings ?s) = Some ''area''"
    by (simp_all add: drawColumnHighlight_def drawRowHighlight_def hasSelectionHandle_def
         truthy_def newSelection_def exampleSettings_def Let_def)
  from C6_inverted_clip_draws_nothing [OF c inv]
  obtain s' events where run: "draw exampleWalkontable ?s = Inr (s', events)"
    and none: "getBorderEdgesDescriptor s' = []"
    and ev: "events = drawColumnHighlight exampleWalkontable (settings ?s) [10, 10, 10, 10]
                @ drawRowHighlight exampleWalkontable (settings ?s) [10, 10, 10, 10]
                @ [OnBeforeDrawBorders [10, 10, 10, 10] (className (settings ?s))]
                @ (if hasSelectionHandle ?s
                   then [Appear (instanceId exampleWalkontable) [10, 10, 10, 10]] else [])"
    by blast
  have "events = [OnBeforeDrawBorders [10, 10, 10, 10] (Some ''area'')]"
    unfolding ev hl by simp
  with run none first last c show ?thesis by blast
qed

end
